theory Spec2Isabelle
  imports Complex_Main
begin

section \<open>JavaScript values as they reach the store\<close>

text \<open>
  The session store of \<^verbatim>\<open>src/script.js\<close> keeps its data in \<^verbatim>\<open>localStorage\<close> as JSON
  text, so every value it reads back is a JSON value. The type \<open>json\<close> is that universe;
  the JavaScript value \<^verbatim>\<open>undefined\<close> (a missing property, a missing argument) is \<open>None\<close>
  of \<open>json option\<close>. Strings are lists of 8-bit characters, read as the code units
  0..255; numbers in stored data are integers. An object is an association list, looked
  up with \<open>map_of\<close>.
\<close>

datatype json =
    JNull
  | JBool bool
  | JNum int
  | JStr string
  | JArr "json list"
  | JObj "(string \<times> json) list"

datatype error = TypeError

text \<open>Truthiness, as tested by \<^verbatim>\<open>||\<close>, \<^verbatim>\<open>!\<close> and the conditional operator.\<close>

fun truthy :: "json option \<Rightarrow> bool" where
  "truthy None = False"
| "truthy (Some JNull) = False"
| "truthy (Some (JBool b)) = b"
| "truthy (Some (JNum n)) = (n \<noteq> 0)"
| "truthy (Some (JStr s)) = (s \<noteq> [])"
| "truthy (Some (JArr xs)) = True"
| "truthy (Some (JObj kvs)) = True"

text \<open>
  The conversion of a number to a string (\<^verbatim>\<open>Number::toString\<close>, behind \<^verbatim>\<open>String(n)\<close> and
  template literals) belongs to the platform, not to the repository. The functions below
  that convert a value take it as their first argument \<open>ns\<close>, and what is proved of them
  holds for every such function. The decimal numeral \<open>show_int\<close>, which is what the
  platform prints for the integers up to \<open>2\<^sup>5\<^sup>3\<close>, stands for it in the evaluations
  at concrete inputs.
\<close>

definition digit_char :: "nat \<Rightarrow> char" where
  "digit_char d = ''0123456789'' ! d"

function show_nat :: "nat \<Rightarrow> string" where
  "show_nat n = (if n < 10 then [digit_char n] else show_nat (n div 10) @ [digit_char (n mod 10)])"
  by pat_completeness auto
termination
  by (relation "measure (\<lambda>n. n)") auto

declare show_nat.simps [simp del]

definition show_int :: "int \<Rightarrow> string" where
  "show_int i = (if i < 0 then CHR ''-'' # show_nat (nat (- i)) else show_nat (nat i))"

text \<open>\<^verbatim>\<open>Array.prototype.join\<close> with a separator.\<close>

fun join :: "string \<Rightarrow> string list \<Rightarrow> string" where
  "join sep [] = []"
| "join sep [x] = x"
| "join sep (x # y # ys) = x @ sep @ join sep (y # ys)"

text \<open>
  \<^verbatim>\<open>String(v)\<close> for a defined value. An array joins its elements with commas, from left
  to right, printing \<^verbatim>\<open>null\<close> elements as the empty string. An object parsed from JSON
  prints as \<^verbatim>\<open>[object Object]\<close>, unless it has a key \<^verbatim>\<open>toString\<close> of its own: the value
  under that key is no function, \<^verbatim>\<open>Object.prototype.valueOf\<close> returns the object itself,
  and the conversion throws a TypeError.
\<close>

fun js_string :: "(int \<Rightarrow> string) \<Rightarrow> json \<Rightarrow> error + string"
  and js_elements :: "(int \<Rightarrow> string) \<Rightarrow> json list \<Rightarrow> error + string" where
  "js_string ns JNull = Inr ''null''"
| "js_string ns (JBool b) = Inr (if b then ''true'' else ''false'')"
| "js_string ns (JNum n) = Inr (ns n)"
| "js_string ns (JStr s) = Inr s"
| "js_string ns (JArr xs) = js_elements ns xs"
| "js_string ns (JObj kvs) =
     (if map_of kvs ''toString'' \<noteq> None then Inl TypeError else Inr ''[object Object]'')"
| "js_elements ns [] = Inr []"
| "js_elements ns (x # xs) =
     (case (if x = JNull then Inr [] else js_string ns x) of
        Inl err \<Rightarrow> Inl err
      | Inr t \<Rightarrow> if xs = [] then Inr t
                 else (case js_elements ns xs of
                         Inl err \<Rightarrow> Inl err
                       | Inr r \<Rightarrow> Inr (t @ '','' @ r)))"

text \<open>
  Property reads. \<open>opt_prop\<close> is the optional chain \<^verbatim>\<open>v?.k\<close>: \<^verbatim>\<open>undefined\<close> when \<open>v\<close> is
  \<^verbatim>\<open>null\<close> or \<^verbatim>\<open>undefined\<close>. \<open>member\<close> is the plain read \<^verbatim>\<open>v.k\<close>, which throws a
  TypeError on \<^verbatim>\<open>null\<close>. The keys read by the code (\<^verbatim>\<open>id\<close>, \<^verbatim>\<open>title\<close>, \<^verbatim>\<open>createdAt\<close>,
  \<^verbatim>\<open>updatedAt\<close>, \<^verbatim>\<open>messages\<close>, \<^verbatim>\<open>role\<close>, \<^verbatim>\<open>text\<close>, \<^verbatim>\<open>error\<close>, \<^verbatim>\<open>message\<close>) are no
  properties of numbers, booleans, strings or arrays, so those give \<^verbatim>\<open>undefined\<close>.
\<close>

fun member :: "json \<Rightarrow> string \<Rightarrow> error + json option" where
  "member JNull k = Inl TypeError"
| "member (JObj kvs) k = Inr (map_of kvs k)"
| "member v k = Inr None"

fun opt_prop :: "json option \<Rightarrow> string \<Rightarrow> json option" where
  "opt_prop None k = None"
| "opt_prop (Some JNull) k = None"
| "opt_prop (Some (JObj kvs)) k = map_of kvs k"
| "opt_prop (Some v) k = None"

section \<open>Ids: clock and random source\<close>

text \<open>
  \<^verbatim>\<open>Ids.nowIso()\<close> and \<^verbatim>\<open>Ids.uid(prefix)\<close> read the clock and the random generator. One
  reading is a value of \<open>env\<close>: the ISO time stamp, and the hexadecimal renderings of
  \<^verbatim>\<open>Date.now()\<close> and of \<^verbatim>\<open>Math.random()\<close> that \<^verbatim>\<open>uid\<close> splices into the identifier.
\<close>

record env =
  nowIso :: string
  time_hex :: string
  rand_hex :: string

definition uid :: "env \<Rightarrow> string \<Rightarrow> string" where
  "uid e prefix = prefix @ ''_'' @ time_hex e @ ''_'' @ rand_hex e"

section \<open>Session store\<close>

record session =
  s_id :: string
  s_title :: string
  s_createdAt :: string
  s_updatedAt :: string
  s_messages :: "json list"

text \<open>The object literal \<^verbatim>\<open>{ id, title, createdAt, updatedAt, messages }\<close> as stored JSON.\<close>

definition session_json :: "session \<Rightarrow> json" where
  "session_json s = JObj [(''id'', JStr (s_id s)), (''title'', JStr (s_title s)),
     (''createdAt'', JStr (s_createdAt s)), (''updatedAt'', JStr (s_updatedAt s)),
     (''messages'', JArr (s_messages s))]"

text \<open>\<^verbatim>\<open>String(a || b)\<close> with a string fallback \<open>b\<close>.\<close>

definition string_or :: "(int \<Rightarrow> string) \<Rightarrow> json option \<Rightarrow> string \<Rightarrow> error + string" where
  "string_or ns a b =
     (case a of Some v \<Rightarrow> (if truthy (Some v) then js_string ns v else Inr b) | None \<Rightarrow> Inr b)"

text \<open>
  \<^verbatim>\<open>ensureShape(s)\<close>. The four conversions are made in the order of the source; the
  first that throws ends the call.
\<close>

definition ensureShape :: "(int \<Rightarrow> string) \<Rightarrow> env \<Rightarrow> json option \<Rightarrow> error + session" where
  "ensureShape ns e s =
     (let now = nowIso e in
      case string_or ns (opt_prop s ''id'') (uid e ''sess'') of
        Inl err \<Rightarrow> Inl err
      | Inr i \<Rightarrow>
     (case string_or ns (opt_prop s ''title'') ''Session'' of
        Inl err \<Rightarrow> Inl err
      | Inr t \<Rightarrow>
     (case string_or ns (opt_prop s ''createdAt'') now of
        Inl err \<Rightarrow> Inl err
      | Inr c \<Rightarrow>
     (case string_or ns (opt_prop s ''updatedAt'') now of
        Inl err \<Rightarrow> Inl err
      | Inr u \<Rightarrow>
          Inr \<lparr> s_id = i, s_title = t, s_createdAt = c, s_updatedAt = u,
                s_messages = (case opt_prop s ''messages'' of Some (JArr ms) \<Rightarrow> ms | _ \<Rightarrow> []) \<rparr>))))"

definition createNewSession :: "env \<Rightarrow> string \<Rightarrow> session" where
  "createNewSession e ttl =
     (let now = nowIso e in
      \<lparr> s_id = uid e ''sess'',
        s_title = (if ttl \<noteq> [] then ttl else ''New Session''),
        s_createdAt = now, s_updatedAt = now, s_messages = [] \<rparr>)"

text \<open>
  The two \<^verbatim>\<open>localStorage\<close> cells of the store. \<open>sessions_cell\<close> is what
  \<^verbatim>\<open>getJson('sessions', [])\<close> parses: \<open>None\<close> when the key is absent, empty or not JSON
  (the fallback \<^verbatim>\<open>[]\<close> is returned then). \<open>active_cell\<close> is the string under
  \<^verbatim>\<open>activeSessionId\<close>; \<^verbatim>\<open>getString\<close> reads an absent key as the empty string.
\<close>

record store =
  sessions_cell :: "json option"
  active_cell :: string

definition loadAll :: "store \<Rightarrow> json list" where
  "loadAll st = (case sessions_cell st of Some (JArr xs) \<Rightarrow> xs | _ \<Rightarrow> [])"

definition saveAll :: "json list \<Rightarrow> store \<Rightarrow> store" where
  "saveAll xs st = st\<lparr>sessions_cell := Some (JArr xs)\<rparr>"

definition getActiveId :: "store \<Rightarrow> string" where
  "getActiveId st = active_cell st"

definition setActiveId :: "string \<Rightarrow> store \<Rightarrow> store" where
  "setActiveId i st = st\<lparr>active_cell := i\<rparr>"

text \<open>
  Strict equality \<^verbatim>\<open>a === b\<close> between a value read from stored JSON and another value:
  primitives compare by value; an array or object parsed from storage is a fresh
  reference, identical to no other value.
\<close>

fun strict_eq :: "json option \<Rightarrow> json option \<Rightarrow> bool" where
  "strict_eq None None = True"
| "strict_eq (Some JNull) (Some JNull) = True"
| "strict_eq (Some (JBool a)) (Some (JBool b)) = (a = b)"
| "strict_eq (Some (JNum a)) (Some (JNum b)) = (a = b)"
| "strict_eq (Some (JStr a)) (Some (JStr b)) = (a = b)"
| "strict_eq a b = False"

text \<open>
  \<^verbatim>\<open>all.findIndex((s) => s.id === i)\<close> and \<^verbatim>\<open>all.find((s) => s.id === i)\<close>: the callback
  reads \<^verbatim>\<open>s.id\<close> without a guard, so a \<^verbatim>\<open>null\<close> entry met before a match throws.
  \<open>None\<close> is the index \<open>-1\<close>, respectively \<^verbatim>\<open>undefined\<close>.
\<close>

fun findIndex_id :: "json list \<Rightarrow> json option \<Rightarrow> error + nat option" where
  "findIndex_id [] i = Inr None"
| "findIndex_id (x # xs) i =
     (case member x ''id'' of Inl err \<Rightarrow> Inl err
      | Inr v \<Rightarrow> if strict_eq v i then Inr (Some 0)
          else (case findIndex_id xs i of Inl err \<Rightarrow> Inl err
                | Inr None \<Rightarrow> Inr None
                | Inr (Some n) \<Rightarrow> Inr (Some (Suc n))))"

fun find_id :: "json list \<Rightarrow> json option \<Rightarrow> error + json option" where
  "find_id [] i = Inr None"
| "find_id (x # xs) i =
     (case member x ''id'' of Inl err \<Rightarrow> Inl err
      | Inr v \<Rightarrow> if strict_eq v i then Inr (Some x) else find_id xs i)"

text \<open>
  \<^verbatim>\<open>upsertSession(session)\<close> returns the shaped session; the store is the second
  component. A throw leaves the store as it was (\<^verbatim>\<open>saveAll\<close> is not reached).
\<close>

definition upsertSession ::
  "(int \<Rightarrow> string) \<Rightarrow> env \<Rightarrow> json option \<Rightarrow> store \<Rightarrow> error + session \<times> store" where
  "upsertSession ns e sess st =
     (let all = loadAll st
      in case ensureShape ns e sess of
           Inl err \<Rightarrow> Inl err
         | Inr shaped \<Rightarrow>
             (case findIndex_id all (Some (JStr (s_id shaped))) of
                Inl err \<Rightarrow> Inl err
              | Inr (Some idx) \<Rightarrow> Inr (shaped, saveAll (all[idx := session_json shaped]) st)
              | Inr None \<Rightarrow> Inr (shaped, saveAll (session_json shaped # all) st)))"

definition deleteAllSessions :: "store \<Rightarrow> store" where
  "deleteAllSessions st = setActiveId [] (saveAll [] st)"

text \<open>\<^verbatim>\<open>getById(id)\<close>: \<open>None\<close> is the result \<^verbatim>\<open>null\<close>.\<close>

definition getById ::
  "(int \<Rightarrow> string) \<Rightarrow> env \<Rightarrow> store \<Rightarrow> json option \<Rightarrow> error + session option" where
  "getById ns e st i =
     (case find_id (loadAll st) i of
        Inl err \<Rightarrow> Inl err
      | Inr found \<Rightarrow>
          if truthy found
          then (case ensureShape ns e found of Inl err \<Rightarrow> Inl err | Inr s \<Rightarrow> Inr (Some s))
          else Inr None)"

section \<open>The application's session housekeeping\<close>

text \<open>
  The part of \<^verbatim>\<open>GenesisApp\<close> that the store operations touch: the store and the copy of
  the active id kept in \<^verbatim>\<open>this.state.activeSessionId\<close>.
\<close>

record app =
  sessions :: store
  activeSessionId :: string

text \<open>
  \<^verbatim>\<open>this.sessions.loadAll().map((s) => this.sessions.ensureShape(s))\<close>: every call of
  \<^verbatim>\<open>ensureShape\<close> reads the clock and the random source anew; \<open>envs k\<close> is the reading
  of call number \<open>k\<close>. On an empty collection no such call is made, and
  \<^verbatim>\<open>createNewSession\<close> takes the first reading. A call that throws ends the routine
  before anything is written.
\<close>

fun shape_all :: "(int \<Rightarrow> string) \<Rightarrow> (nat \<Rightarrow> env) \<Rightarrow> nat \<Rightarrow> json list \<Rightarrow> error + session list" where
  "shape_all ns envs k [] = Inr []"
| "shape_all ns envs k (x # xs) =
     (case ensureShape ns (envs k) (Some x) of
        Inl err \<Rightarrow> Inl err
      | Inr s \<Rightarrow> (case shape_all ns envs (Suc k) xs of
                     Inl err \<Rightarrow> Inl err
                   | Inr ss \<Rightarrow> Inr (s # ss)))"

definition ensureAtLeastOneSession :: "(int \<Rightarrow> string) \<Rightarrow> (nat \<Rightarrow> env) \<Rightarrow> app \<Rightarrow> error + app" where
  "ensureAtLeastOneSession ns envs a =
     (let activeId = getActiveId (sessions a)
      in case shape_all ns envs 0 (loadAll (sessions a)) of
           Inl err \<Rightarrow> Inl err
         | Inr all \<Rightarrow>
             (case all of
                [] \<Rightarrow>
                  (let created = createNewSession (envs 0) ''Operator Session''
                   in Inr (a\<lparr>sessions := setActiveId (s_id created)
                                             (saveAll [session_json created] (sessions a)),
                             activeSessionId := s_id created\<rparr>))
              | first # _ \<Rightarrow>
                  if activeId = [] \<or> \<not> list_ex (\<lambda>s. s_id s = activeId) all
                  then Inr (a\<lparr>sessions := setActiveId (s_id first) (sessions a),
                            activeSessionId := s_id first\<rparr>)
                  else Inr (a\<lparr>activeSessionId := activeId\<rparr>)))"

text \<open>\<^verbatim>\<open>clearAllSessions\<close> once the user has confirmed the dialog (rendering left out).\<close>

definition clearAllSessions :: "(int \<Rightarrow> string) \<Rightarrow> (nat \<Rightarrow> env) \<Rightarrow> app \<Rightarrow> error + app" where
  "clearAllSessions ns envs a =
     ensureAtLeastOneSession ns envs (a\<lparr>sessions := deleteAllSessions (sessions a)\<rparr>)"

text \<open>\<^verbatim>\<open>getActiveSession()\<close>.\<close>

definition getActiveSession :: "(int \<Rightarrow> string) \<Rightarrow> env \<Rightarrow> app \<Rightarrow> error + session option" where
  "getActiveSession ns e a =
     (let i = activeSessionId a
      in if i = [] then Inr None else getById ns e (sessions a) (Some (JStr i)))"

section \<open>Rolling memory\<close>

text \<open>The object literal \<^verbatim>\<open>{ role: m.role, text: m.text }\<close>: two properties and no other.\<close>

record memory_entry =
  m_role :: "json option"
  m_text :: "json option"

fun strip_message :: "json \<Rightarrow> error + memory_entry" where
  "strip_message m =
     (case member m ''role'' of Inl e \<Rightarrow> Inl e
      | Inr r \<Rightarrow> (case member m ''text'' of Inl e \<Rightarrow> Inl e
         | Inr t \<Rightarrow> Inr \<lparr>m_role = r, m_text = t\<rparr>))"

text \<open>\<^verbatim>\<open>Array.prototype.map\<close> with a callback that may throw: the first throw ends it.\<close>

fun map_err :: "('a \<Rightarrow> error + 'b) \<Rightarrow> 'a list \<Rightarrow> error + 'b list" where
  "map_err f [] = Inr []"
| "map_err f (x # xs) =
     (case f x of Inl e \<Rightarrow> Inl e
      | Inr y \<Rightarrow> (case map_err f xs of Inl e \<Rightarrow> Inl e | Inr ys \<Rightarrow> Inr (y # ys)))"

text \<open>
  \<^verbatim>\<open>getRollingMemory(session, limit = 15)\<close>. The session argument is any value
  (\<^verbatim>\<open>session?.messages\<close>), the limit an integer, \<open>None\<close> when the argument is omitted.
  \<^verbatim>\<open>msgs.slice(k)\<close> with \<open>0 \<le> k\<close> drops the first \<open>k\<close> elements.
\<close>

definition getRollingMemory :: "json option \<Rightarrow> int option \<Rightarrow> error + memory_entry list" where
  "getRollingMemory sess lopt =
     (let limit = (case lopt of None \<Rightarrow> 15 | Some l \<Rightarrow> l);
          msgs = (case opt_prop sess ''messages'' of Some (JArr ms) \<Rightarrow> ms | _ \<Rightarrow> []);
          slice = drop (nat (max 0 (int (length msgs) - limit))) msgs
      in map_err strip_message slice)"


section \<open>Generation client\<close>

text \<open>
  The numbers of the generation settings. \<^verbatim>\<open>Math.min\<close> and \<^verbatim>\<open>Math.max\<close> compare
  without rounding, so a finite double is the real number it stands for; the values that
  are no real numbers are kept apart. Both functions return \<^verbatim>\<open>NaN\<close> as soon as one
  argument is \<^verbatim>\<open>NaN\<close>.
\<close>

datatype jsnum = NaN | NegInf | PosInf | Fin real

fun num_le :: "jsnum \<Rightarrow> jsnum \<Rightarrow> bool" where
  "num_le NaN b = False"
| "num_le a NaN = False"
| "num_le NegInf b = True"
| "num_le a PosInf = True"
| "num_le (Fin x) (Fin y) = (x \<le> y)"
| "num_le a b = False"

definition Math_min :: "jsnum \<Rightarrow> jsnum \<Rightarrow> jsnum" where
  "Math_min a b = (if a = NaN \<or> b = NaN then NaN else if num_le a b then a else b)"

definition Math_max :: "jsnum \<Rightarrow> jsnum \<Rightarrow> jsnum" where
  "Math_max a b = (if a = NaN \<or> b = NaN then NaN else if num_le a b then b else a)"

text \<open>\<^verbatim>\<open>Ids.clamp(n, min, max)\<close>.\<close>

definition clamp :: "jsnum \<Rightarrow> jsnum \<Rightarrow> jsnum \<Rightarrow> jsnum" where
  "clamp n mn mx = Math_max mn (Math_min mx n)"

text \<open>
  The settings object. \<open>None\<close> in a numeric field is \<^verbatim>\<open>null\<close> or \<^verbatim>\<open>undefined\<close>, which
  \<^verbatim>\<open>??\<close> replaces by the default; \<^verbatim>\<open>Number\<close> of a number is that number.
\<close>

record settings =
  apiKey :: string
  temperature :: "jsnum option"
  maxTokens :: "jsnum option"

record gemini_content =
  g_role :: string
  g_text :: string

record payload =
  systemInstruction :: string
  contents :: "gemini_content list"
  cfg_temperature :: jsnum
  cfg_maxOutputTokens :: jsnum

definition buildSystemInstruction :: string where
  "buildSystemInstruction = join [CHR 0x0A]
     [''You are AI GENESIS, an assistant operating inside a secure command dashboard.'',
      ''Language policy: Respond strictly in English. Do not use any other language.'',
      ''If the user requests non-English output, refuse and continue in English.'',
      ''Be concise but technically precise. Prefer structured output when appropriate.'',
      ''If you do not know, say you do not know. Do not fabricate APIs or facts.'']"

text \<open>
  \<^verbatim>\<open>toGeminiContents(messages)\<close> over the entries built by \<^verbatim>\<open>getRollingMemory\<close>: an entry
  object is truthy, so \<^verbatim>\<open>!m || !m.text\<close> is the test of the text alone.
\<close>

fun toGeminiContents :: "(int \<Rightarrow> string) \<Rightarrow> memory_entry list \<Rightarrow> error + gemini_content list" where
  "toGeminiContents ns [] = Inr []"
| "toGeminiContents ns (m # ms) =
     (if \<not> truthy (m_text m) then toGeminiContents ns ms
      else (case js_string ns (the (m_text m)) of
              Inl err \<Rightarrow> Inl err
            | Inr t \<Rightarrow>
                (case toGeminiContents ns ms of
                   Inl err \<Rightarrow> Inl err
                 | Inr cs \<Rightarrow>
                     Inr (\<lparr>g_role = (if strict_eq (m_role m) (Some (JStr ''assistant''))
                                      then ''model'' else ''user''),
                           g_text = t\<rparr> # cs))))"

text \<open>
  Lines 447 to 459 of \<^verbatim>\<open>generate\<close>: the clamped parameters and the request body. The
  conversion of a message text may throw.
\<close>

definition build_payload :: "(int \<Rightarrow> string) \<Rightarrow> settings \<Rightarrow> memory_entry list \<Rightarrow> error + payload" where
  "build_payload ns st memoryMessages =
     (let temperature = clamp (case temperature st of None \<Rightarrow> Fin (4 / 10) | Some n \<Rightarrow> n) (Fin 0) (Fin 1);
          maxOutputTokens = clamp (case maxTokens st of None \<Rightarrow> Fin 512 | Some n \<Rightarrow> n) (Fin 1) (Fin 2048)
      in case toGeminiContents ns memoryMessages of
           Inl err \<Rightarrow> Inl err
         | Inr cs \<Rightarrow>
             Inr \<lparr>systemInstruction = buildSystemInstruction,
                  contents = cs,
                  cfg_temperature = temperature,
                  cfg_maxOutputTokens = maxOutputTokens\<rparr>)"

text \<open>
  What the one \<^verbatim>\<open>fetch\<close> attempt comes to: a rejection (of \<^verbatim>\<open>fetch\<close> or of
  \<^verbatim>\<open>res.text()\<close>), or a response with its status and its body. The body is given as
  \<^verbatim>\<open>JSON.parse\<close> reads it, \<open>None\<close> when the text is no JSON. \<^verbatim>\<open>res.ok\<close> is true for
  the statuses 200 to 299.
\<close>

datatype fetch_outcome = Rejected | Response int "json option"

definition ok_status :: "int \<Rightarrow> bool" where
  "ok_status n = (200 \<le> n \<and> n \<le> 299)"

text \<open>\<^verbatim>\<open>Ids.safeJsonParse(raw, null)\<close> on such a body.\<close>

definition safeJsonParse_null :: "json option \<Rightarrow> json" where
  "safeJsonParse_null body = (case body of None \<Rightarrow> JNull | Some j \<Rightarrow> j)"

text \<open>
  The \<^verbatim>\<open>Error\<close> objects that \<^verbatim>\<open>generate\<close> throws, with the fields it sets on them, and
  the runtime's own TypeError.
\<close>

record gen_error =
  e_message :: string
  e_status :: int
  e_details :: "json option"
  e_elapsedMs :: "int option"

datatype failure = Thrown gen_error | RuntimeTypeError

record gen_result =
  r_text :: string
  r_elapsedMs :: int
  r_raw :: json

text \<open>The read \<^verbatim>\<open>v?.[0]\<close>.\<close>

fun opt_first :: "json option \<Rightarrow> json option" where
  "opt_first (Some (JArr (x # xs))) = Some x"
| "opt_first (Some (JStr (c # cs))) = Some (JStr [c])"
| "opt_first (Some (JObj kvs)) = map_of kvs ''0''"
| "opt_first v = None"

text \<open>
  \<^verbatim>\<open>json?.candidates?.[0]?.content?.parts?.map((p) => p.text).filter(Boolean).join('') || ''\<close>.
  A missing link of the optional chain makes the whole chain \<^verbatim>\<open>undefined\<close>; \<^verbatim>\<open>parts\<close>
  that is present and no array has no \<^verbatim>\<open>map\<close>, and a \<^verbatim>\<open>null\<close> part has no \<^verbatim>\<open>text\<close>:
  both throw.
\<close>

definition extract_text :: "(int \<Rightarrow> string) \<Rightarrow> json \<Rightarrow> error + string" where
  "extract_text ns j =
     (case opt_prop (opt_prop (opt_first (opt_prop (Some j) ''candidates'')) ''content'') ''parts'' of
        None \<Rightarrow> Inr []
      | Some JNull \<Rightarrow> Inr []
      | Some (JArr ps) \<Rightarrow>
          (case map_err (\<lambda>p. member p ''text'') ps of
             Inl err \<Rightarrow> Inl err
           | Inr ts \<Rightarrow>
               (case map_err (\<lambda>t. js_string ns (the t)) (filter truthy ts) of
                  Inl err \<Rightarrow> Inl err
                | Inr strs \<Rightarrow> Inr (concat strs)))
      | Some _ \<Rightarrow> Inl TypeError)"

text \<open>
  \<^verbatim>\<open>parsed?.error?.message ? String(parsed.error.message) : ''\<close>, the value of
  \<^verbatim>\<open>messageFromServer\<close>.
\<close>

definition messageFromServer :: "(int \<Rightarrow> string) \<Rightarrow> json \<Rightarrow> error + string" where
  "messageFromServer ns parsed =
     (let msg = opt_prop (opt_prop (Some parsed) ''error'') ''message''
      in if truthy msg then js_string ns (the msg) else Inr [])"

text \<open>
  \<^verbatim>\<open>generate({ memoryMessages })\<close> with the settings of the application. The result is
  the request body handed to \<^verbatim>\<open>fetch\<close>, if the call got that far, and the value returned
  or the error thrown. \<open>elapsed\<close> is the rounded difference of the two clock readings. A
  TypeError of the runtime, in building the request or in reading the response, leaves
  \<^verbatim>\<open>generate\<close> as it is. The request URL and the diagnostic callback are left out.
\<close>

definition generate ::
  "(int \<Rightarrow> string) \<Rightarrow> settings \<Rightarrow> memory_entry list \<Rightarrow> fetch_outcome \<Rightarrow> int \<Rightarrow>
   payload option \<times> (failure + gen_result)" where
  "generate ns st memoryMessages outcome elapsed =
     (if apiKey st = [] then
        (None, Inl (Thrown \<lparr>e_message = ''Missing API key'', e_status = 401,
                             e_details = None, e_elapsedMs = None\<rparr>))
      else
        (case build_payload ns st memoryMessages of
           Inl err \<Rightarrow> (None, Inl RuntimeTypeError)
         | Inr p \<Rightarrow>
        (Some p,
         (case outcome of
            Rejected \<Rightarrow>
              Inl (Thrown \<lparr>e_message = ''Network error while contacting Gemini. Check your connection.'',
                           e_status = 0, e_details = None, e_elapsedMs = None\<rparr>)
          | Response status body \<Rightarrow>
              if \<not> ok_status status then
                (let parsed = safeJsonParse_null body
                 in case messageFromServer ns parsed of
                      Inl err \<Rightarrow> Inl RuntimeTypeError
                    | Inr m \<Rightarrow>
                        Inl (Thrown \<lparr>e_message =
                               (if m \<noteq> [] then m
                                else ''Gemini request failed (HTTP '' @ ns status @ '').''),
                             e_status = status, e_details = Some parsed, e_elapsedMs = Some elapsed\<rparr>))
              else
                (let j = safeJsonParse_null body
                 in if \<not> truthy (Some j) then
                      Inl (Thrown \<lparr>e_message = ''Gemini returned an unreadable response.'',
                                   e_status = 500, e_details = None, e_elapsedMs = Some elapsed\<rparr>)
                    else (case extract_text ns j of
                            Inl err \<Rightarrow> Inl RuntimeTypeError
                          | Inr t \<Rightarrow> Inr \<lparr>r_text = t, r_elapsedMs = elapsed, r_raw = j\<rparr>))))))"

text \<open>
  \<^verbatim>\<open>runAssistantTurn\<close> up to the call of \<^verbatim>\<open>generate\<close>: the active session is looked up
  and its rolling memory, taken with the limit 15, goes to the generation client together
  with the application's settings. The result is that memory and what \<^verbatim>\<open>generate\<close>
  gives; \<open>None\<close> when there is no active session and the turn returns at once, or when
  the lookup or the memory selection throws.
\<close>

definition runAssistantTurn ::
  "(int \<Rightarrow> string) \<Rightarrow> env \<Rightarrow> app \<Rightarrow> settings \<Rightarrow> fetch_outcome \<Rightarrow> int \<Rightarrow>
   (memory_entry list \<times> payload option \<times> (failure + gen_result)) option" where
  "runAssistantTurn ns e a st outcome elapsed =
     (case getActiveSession ns e a of
        Inr (Some active) \<Rightarrow>
          (case getRollingMemory (Some (session_json active)) (Some 15) of
             Inr memory \<Rightarrow> Some (memory, generate ns st memory outcome elapsed)
           | Inl err \<Rightarrow> None)
      | _ \<Rightarrow> None)"

section \<open>Markdown renderer\<close>

text \<open>
  Characters are code units below 256. White space is what \<^verbatim>\<open>\s\<close>, \<^verbatim>\<open>trim\<close> and
  \<^verbatim>\<open>trimEnd\<close> take for it: tab, line feed, vertical tab, form feed, carriage return,
  space and no-break space. The dot of a regular expression matches every character
  that is no line terminator: no line feed and no carriage return.
\<close>

definition is_space :: "char \<Rightarrow> bool" where
  "is_space c = (c \<in> set [CHR 0x09, CHR 0x0A, CHR 0x0B, CHR 0x0C, CHR 0x0D, CHR 0x20, CHR 0xA0])"

definition is_line_terminator :: "char \<Rightarrow> bool" where
  "is_line_terminator c = (c = CHR 0x0A \<or> c = CHR 0x0D)"

definition is_digit :: "char \<Rightarrow> bool" where
  "is_digit c = (c \<in> set ''0123456789'')"

definition trimEnd :: "string \<Rightarrow> string" where
  "trimEnd s = rev (dropWhile is_space (rev s))"

definition trim :: "string \<Rightarrow> string" where
  "trim s = dropWhile is_space (trimEnd s)"

text \<open>\<^verbatim>\<open>replaceAll\<close> of one character by a string.\<close>

definition replaceAll :: "char \<Rightarrow> string \<Rightarrow> string \<Rightarrow> string" where
  "replaceAll c r s = concat (map (\<lambda>x. if x = c then r else [x]) s)"

definition escapeHtml :: "string \<Rightarrow> string" where
  "escapeHtml t =
     replaceAll (CHR 0x27) ''&#39;''
       (replaceAll (CHR 0x22) ''&quot;''
         (replaceAll CHR ''>'' ''&gt;''
           (replaceAll CHR ''<'' ''&lt;''
             (replaceAll CHR ''&'' ''&amp;'' t))))"

text \<open>
  \<^verbatim>\<open>str.replace(regex, replacement)\<close> with a global regular expression that matches no
  empty string. The scan goes from left to right; where the expression matches, the match
  becomes a piece carrying the captured groups and the scan goes on behind it; elsewhere
  one character is copied. \<open>m\<close> is the expression tried at the start of a string: the
  groups and the text behind the match, or \<open>None\<close>. The result of the replacement is
  the pieces rendered in order.
\<close>

datatype 'g piece = Lit char | Match 'g

function replace_pieces :: "(string \<Rightarrow> ('g \<times> string) option) \<Rightarrow> string \<Rightarrow> 'g piece list" where
  "replace_pieces m [] = []"
| "replace_pieces m (c # cs) =
     (case m (c # cs) of
        None \<Rightarrow> Lit c # replace_pieces m cs
      | Some (g, rest) \<Rightarrow>
          if length rest < length (c # cs) then Match g # replace_pieces m rest
          else Lit c # replace_pieces m cs)"
  by pat_completeness auto
termination
  by (relation "measure (\<lambda>(m, s). length s)") auto

fun render_piece :: "('g \<Rightarrow> string) \<Rightarrow> 'g piece \<Rightarrow> string" where
  "render_piece f (Lit c) = [c]"
| "render_piece f (Match g) = f g"

definition render_pieces :: "('g \<Rightarrow> string) \<Rightarrow> 'g piece list \<Rightarrow> string" where
  "render_pieces f ps = concat (map (render_piece f) ps)"

text \<open>
  The lazy group \<^verbatim>\<open>(.+?)\<close> followed by the rest \<open>k\<close> of an expression: the shortest
  non-empty run of characters that are no line terminators after which \<open>k\<close> matches.
\<close>

fun lazy_dots :: "(string \<Rightarrow> 'r option) \<Rightarrow> string \<Rightarrow> (string \<times> 'r) option" where
  "lazy_dots k [] = None"
| "lazy_dots k (c # cs) =
     (if is_line_terminator c then None
      else (case k cs of
              Some r \<Rightarrow> Some ([c], r)
            | None \<Rightarrow> (case lazy_dots k cs of
                         Some (g, r) \<Rightarrow> Some (c # g, r)
                       | None \<Rightarrow> None)))"

text \<open>A literal at the start of a string: the text behind it.\<close>

definition after_prefix :: "string \<Rightarrow> string \<Rightarrow> string option" where
  "after_prefix p s = (if take (length p) s = p then Some (drop (length p) s) else None)"

text \<open>\<^verbatim>\<open>/\*\*(.+?)\*\*/g\<close>, replaced by \<^verbatim>\<open><strong>$1</strong>\<close>.\<close>

definition match_bold :: "string \<Rightarrow> (string \<times> string) option" where
  "match_bold s = (case after_prefix ''**'' s of
                     None \<Rightarrow> None
                   | Some t \<Rightarrow> lazy_dots (after_prefix ''**'') t)"

definition render_bold :: "string \<Rightarrow> string" where
  "render_bold g = ''<strong>'' @ g @ ''</strong>''"

text \<open>
  \<^verbatim>\<open>/`([^`]+?)`/g\<close>: a backtick, at least one character that is no backtick, a backtick.
  The callback escapes the group once more.
\<close>

definition match_code :: "string \<Rightarrow> (string \<times> string) option" where
  "match_code s =
     (case s of
        [] \<Rightarrow> None
      | c # t \<Rightarrow>
          if c \<noteq> CHR 0x60 then None
          else (let g = takeWhile (\<lambda>x. x \<noteq> CHR 0x60) t;
                    r = dropWhile (\<lambda>x. x \<noteq> CHR 0x60) t
                in if g \<noteq> [] \<and> r \<noteq> [] then Some (g, tl r) else None))"

definition render_code :: "string \<Rightarrow> string" where
  "render_code g = ''<code>'' @ escapeHtml g @ ''</code>''"

text \<open>
  \<^verbatim>\<open>/\[(.+?)\]\((https?:\/\/[^\s)]+)\)/g\<close>. Behind the lazy label come \<^verbatim>\<open>](\<close>, the
  scheme, the longest run of characters that are neither white space nor a closing
  parenthesis, which must not be empty, and the closing parenthesis. The groups are the
  label and the URL.
\<close>

definition match_url :: "string \<Rightarrow> (string \<times> string) option" where
  "match_url s =
     (case after_prefix ''https://'' s of
        Some t \<Rightarrow> Some (''https://'', t)
      | None \<Rightarrow> (case after_prefix ''http://'' s of
                   Some t \<Rightarrow> Some (''http://'', t)
                 | None \<Rightarrow> None))"

definition link_tail :: "string \<Rightarrow> (string \<times> string) option" where
  "link_tail s =
     (case after_prefix '']('' s of
        None \<Rightarrow> None
      | Some t \<Rightarrow>
          (case match_url t of
             None \<Rightarrow> None
           | Some (scheme, u) \<Rightarrow>
               (let body = takeWhile (\<lambda>x. \<not> is_space x \<and> x \<noteq> CHR '')'') u;
                    r = dropWhile (\<lambda>x. \<not> is_space x \<and> x \<noteq> CHR '')'') u
                in if body \<noteq> [] \<and> r \<noteq> [] \<and> hd r = CHR '')'' then Some (scheme @ body, tl r)
                   else None)))"

definition match_link :: "string \<Rightarrow> ((string \<times> string) \<times> string) option" where
  "match_link s =
     (case s of
        [] \<Rightarrow> None
      | c # t \<Rightarrow>
          if c \<noteq> CHR ''['' then None
          else (case lazy_dots link_tail t of
                  None \<Rightarrow> None
                | Some (label, (url, rest)) \<Rightarrow> Some ((label, url), rest)))"

definition render_link :: "string \<times> string \<Rightarrow> string" where
  "render_link g =
     ''<a href='' @ [CHR 0x22] @ snd g @ [CHR 0x22] @ '' target='' @ [CHR 0x22] @ ''_blank'' @ [CHR 0x22]
       @ '' rel='' @ [CHR 0x22] @ ''noopener noreferrer'' @ [CHR 0x22] @ ''>'' @ fst g @ ''</a>''"

definition bold_pass :: "string \<Rightarrow> string" where
  "bold_pass s = render_pieces render_bold (replace_pieces match_bold s)"

definition code_pass :: "string \<Rightarrow> string" where
  "code_pass s = render_pieces render_code (replace_pieces match_code s)"

definition link_pass :: "string \<Rightarrow> string" where
  "link_pass s = render_pieces render_link (replace_pieces match_link s)"

definition formatInline :: "string \<Rightarrow> string" where
  "formatInline t = link_pass (code_pass (bold_pass (escapeHtml t)))"

text \<open>
  The two list expressions of \<^verbatim>\<open>formatInlineAndBlocks\<close>, tried on a line whose trailing
  white space is gone (\<^verbatim>\<open>trimmed\<close>): \<^verbatim>\<open>/^\s*[-*]\s+(.+)$/\<close> and
  \<^verbatim>\<open>/^\s*(\d+)\.\s+(.+)$/\<close>. The result is the item text, the last group.
\<close>

definition item_text :: "string \<Rightarrow> string option" where
  "item_text s =
     (let r = dropWhile is_space s
      in if r \<noteq> s \<and> r \<noteq> [] \<and> \<not> list_ex is_line_terminator r then Some r else None)"

definition ulMatch :: "string \<Rightarrow> string option" where
  "ulMatch trimmed =
     (case dropWhile is_space trimmed of
        [] \<Rightarrow> None
      | c # t \<Rightarrow> if c = CHR ''-'' \<or> c = CHR ''*'' then item_text t else None)"

definition olMatch :: "string \<Rightarrow> string option" where
  "olMatch trimmed =
     (let t = dropWhile is_space trimmed;
          ds = takeWhile is_digit t
      in if ds = [] then None
         else (case dropWhile is_digit t of
                 [] \<Rightarrow> None
               | c # r \<Rightarrow> if c = CHR ''.'' then item_text r else None))"

text \<open>\<^verbatim>\<open>raw.split(/\r?\n/)\<close>.\<close>

fun split_lines :: "string \<Rightarrow> string list" where
  "split_lines [] = [[]]"
| "split_lines (c # cs) =
     (if c = CHR 0x0A then [] # split_lines cs
      else if c = CHR 0x0D \<and> cs \<noteq> [] \<and> hd cs = CHR 0x0A then [] # split_lines (tl cs)
      else (case split_lines cs of
              [] \<Rightarrow> [[c]]
            | l # ls \<Rightarrow> (c # l) # ls))"

text \<open>The local variables of \<^verbatim>\<open>formatInlineAndBlocks\<close>.\<close>

datatype list_kind = UL | OL

record md_state =
  html :: string
  listMode :: "list_kind option"
  listBuf :: "string list"

definition tag_of :: "list_kind \<Rightarrow> string" where
  "tag_of k = (if k = OL then ''ol'' else ''ul'')"

definition render_list :: "list_kind \<Rightarrow> string list \<Rightarrow> string" where
  "render_list k items =
     ''<'' @ tag_of k @ ''>'' @ concat (map (\<lambda>li. ''<li>'' @ formatInline li @ ''</li>'') items)
       @ ''</'' @ tag_of k @ ''>''"

definition flushList :: "md_state \<Rightarrow> md_state" where
  "flushList st =
     (case listMode st of
        None \<Rightarrow> st
      | Some k \<Rightarrow>
          if listBuf st = [] then st
          else st\<lparr>html := html st @ render_list k (listBuf st), listMode := None, listBuf := []\<rparr>)"

definition pushParagraph :: "string \<Rightarrow> md_state \<Rightarrow> md_state" where
  "pushParagraph line st =
     (let t = trim line
      in if t = [] then st else st\<lparr>html := html st @ ''<p>'' @ formatInline t @ ''</p>''\<rparr>)"

text \<open>The body of the loop over the lines.\<close>

definition scan_line :: "md_state \<Rightarrow> string \<Rightarrow> md_state" where
  "scan_line st line =
     (let trimmed = trimEnd line
      in case ulMatch trimmed of
           Some item \<Rightarrow>
             (let st1 = (if listMode st \<noteq> None \<and> listMode st \<noteq> Some UL then flushList st else st)
              in st1\<lparr>listMode := Some UL, listBuf := listBuf st1 @ [item]\<rparr>)
         | None \<Rightarrow>
             (case olMatch trimmed of
                Some item \<Rightarrow>
                  (let st1 = (if listMode st \<noteq> None \<and> listMode st \<noteq> Some OL then flushList st else st)
                   in st1\<lparr>listMode := Some OL, listBuf := listBuf st1 @ [item]\<rparr>)
              | None \<Rightarrow>
                  if trim trimmed = [] then flushList st
                  else pushParagraph trimmed (flushList st)))"

definition formatInlineAndBlocks :: "string \<Rightarrow> string" where
  "formatInlineAndBlocks raw =
     html (flushList (foldl scan_line \<lparr>html = [], listMode = None, listBuf = []\<rparr> (split_lines raw)))"

section \<open>The list scan, said with blocks\<close>

text \<open>
  What the loop of \<^verbatim>\<open>formatInlineAndBlocks\<close> decides about one line, in the order of its
  tests: an unordered or an ordered list item with its text, a blank line, or a paragraph
  with its trimmed text.
\<close>

datatype line_class = Item list_kind string | Blank | Para string

definition classify :: "string \<Rightarrow> line_class" where
  "classify line =
     (let trimmed = trimEnd line
      in case ulMatch trimmed of
           Some item \<Rightarrow> Item UL item
         | None \<Rightarrow> (case olMatch trimmed of
                      Some item \<Rightarrow> Item OL item
                    | None \<Rightarrow> if trim trimmed = [] then Blank else Para (trim trimmed)))"

text \<open>
  The description of the scan in section 4.1 of the specification, as a function from the
  classified lines to the finished elements: a paragraph line is a paragraph, a blank line
  is nothing, and a list item opens a list that takes the items of its own kind that
  follow it without a break, and ends before the first other line or at the end of the
  segment.
\<close>

datatype block = BList list_kind "string list" | BPara string

fun render_block :: "block \<Rightarrow> string" where
  "render_block (BList k items) = render_list k items"
| "render_block (BPara t) = ''<p>'' @ formatInline t @ ''</p>''"

definition render_blocks :: "block list \<Rightarrow> string" where
  "render_blocks bs = concat (map render_block bs)"

fun run_items :: "list_kind \<Rightarrow> line_class list \<Rightarrow> string list" where
  "run_items k (Item k' t # cs) = (if k' = k then t # run_items k cs else [])"
| "run_items k cs = []"

fun after_run :: "list_kind \<Rightarrow> line_class list \<Rightarrow> line_class list" where
  "after_run k (Item k' t # cs) = (if k' = k then after_run k cs else Item k' t # cs)"
| "after_run k cs = cs"

function spec_blocks :: "line_class list \<Rightarrow> block list" where
  "spec_blocks [] = []"
| "spec_blocks (Blank # cs) = spec_blocks cs"
| "spec_blocks (Para t # cs) = BPara t # spec_blocks cs"
| "spec_blocks (Item k t # cs) = BList k (t # run_items k cs) # spec_blocks (after_run k cs)"
  by pat_completeness auto
termination
proof (relation "measure length")
  have le: "length (after_run k cs) \<le> length cs" for k cs
    by (induction k cs rule: after_run.induct) auto
  fix k :: list_kind and t :: string and cs :: "line_class list"
  show "(after_run k cs, Item k t # cs) \<in> measure length"
    using le [of k cs] by simp
qed auto

text \<open>A scan state with no list open.\<close>

definition closed :: "md_state \<Rightarrow> bool" where
  "closed st = (listMode st = None \<and> listBuf st = [])"

section \<open>The text a replacement came from\<close>

text \<open>The text that the link expression matched, given its groups (label and URL).\<close>

definition link_source :: "string \<times> string \<Rightarrow> string" where
  "link_source g = ''['' @ fst g @ '']('' @ snd g @ '')''"

text \<open>\<open>contains_text p s\<close>: the text \<open>p\<close> occurs in \<open>s\<close>.\<close>

fun contains_text :: "string \<Rightarrow> string \<Rightarrow> bool" where
  "contains_text p [] = (p = [])"
| "contains_text p (c # cs) = (take (length p) (c # cs) = p \<or> contains_text p cs)"

section \<open>Predicates used in the statements about the store\<close>

text \<open>The test \<^verbatim>\<open>s.id === i\<close> on an entry that is not \<^verbatim>\<open>null\<close>.\<close>

definition has_id :: "json \<Rightarrow> json option \<Rightarrow> bool" where
  "has_id x i = strict_eq (opt_prop (Some x) ''id'') i"

text \<open>
  The state the self-healing routine is to establish: at least one persisted session, a
  non-empty active pointer, and \<^verbatim>\<open>getById\<close> of the pointer returning a session with
  that id.
\<close>

definition well_kept :: "(int \<Rightarrow> string) \<Rightarrow> env \<Rightarrow> store \<Rightarrow> bool" where
  "well_kept ns e st =
     (loadAll st \<noteq> [] \<and> getActiveId st \<noteq> [] \<and>
      (case getById ns e st (Some (JStr (getActiveId st))) of
         Inr (Some s) \<Rightarrow> s_id s = getActiveId st
       | _ \<Rightarrow> False))"

text \<open>Sample clock and random readings for the evaluations at concrete inputs.\<close>

definition sample_env :: "nat \<Rightarrow> env" where
  "sample_env k = \<lparr>nowIso = ''2024-01-01T00:00:00.000Z'', time_hex = ''18cc251f400'',
     rand_hex = ''a3f'' @ show_nat k\<rparr>"

section \<open>Predicates used in the statements about the generation client\<close>

text \<open>A number that is finite and lies between two bounds.\<close>

definition in_range :: "jsnum \<Rightarrow> real \<Rightarrow> real \<Rightarrow> bool" where
  "in_range n lo hi = (case n of Fin r \<Rightarrow> lo \<le> r \<and> r \<le> hi | _ \<Rightarrow> False)"

section \<open>Properties of the rolling memory\<close>

lemma member_not_null: "m \<noteq> JNull \<Longrightarrow> member m k = Inr (opt_prop (Some m) k)"
  by (cases m) simp_all

lemma strip_message_not_null:
  "m \<noteq> JNull \<Longrightarrow>
   strip_message m = Inr \<lparr>m_role = opt_prop (Some m) ''role'', m_text = opt_prop (Some m) ''text''\<rparr>"
  by (simp add: member_not_null)

lemma map_err_strip:
  "JNull \<notin> set ms \<Longrightarrow>
   map_err strip_message ms =
     Inr (map (\<lambda>m. \<lparr>m_role = opt_prop (Some m) ''role'', m_text = opt_prop (Some m) ''text''\<rparr>) ms)"
proof (induction ms)
  case Nil
  show ?case by simp
next
  case (Cons m ms)
  from Cons.prems have m: "m \<noteq> JNull" and ms: "JNull \<notin> set ms" by auto
  show ?case
    using Cons.IH [OF ms] strip_message_not_null [OF m]
    by (simp del: strip_message.simps)
qed

lemma messages_of_session_json:
  "opt_prop (Some (session_json S)) ''messages'' = Some (JArr (s_messages S))"
  by (simp add: session_json_def)

lemma rolling_slice:
  "JNull \<notin> set (s_messages S) \<Longrightarrow>
   getRollingMemory (Some (session_json S)) lopt =
     Inr (map (\<lambda>m. \<lparr>m_role = opt_prop (Some m) ''role'', m_text = opt_prop (Some m) ''text''\<rparr>)
        (drop (nat (max 0 (int (length (s_messages S)) - (case lopt of None \<Rightarrow> 15 | Some l \<Rightarrow> l))))
           (s_messages S)))"
proof -
  assume a: "JNull \<notin> set (s_messages S)"
  have "JNull \<notin> set (drop k (s_messages S))" for k
    using a by (meson in_set_dropD)
  then show ?thesis
    by (simp add: getRollingMemory_def messages_of_session_json map_err_strip Let_def)
qed

lemma getRollingMemory_null_message:
  "getRollingMemory (Some (JObj [(''messages'', JArr [JNull])])) (Some 15) = Inl TypeError"
  by (simp add: getRollingMemory_def)

text \<open>
  C1. For a session \<open>S\<close> whose messages are message objects (none is \<^verbatim>\<open>null\<close>, on which
  \<^verbatim>\<open>m.role\<close> would throw) and a limit \<open>L \<ge> 0\<close>, \<^verbatim>\<open>getRollingMemory(S, L)\<close> returns
  \<open>min L |S.messages|\<close> entries; entry \<open>i\<close> carries the \<^verbatim>\<open>role\<close> and the \<^verbatim>\<open>text\<close> of
  the message at position \<open>|S.messages| - n + i\<close>, so the entries are the last \<open>L\<close> messages in
  their original order. An entry is a \<open>memory_entry\<close>: it has those two fields and no
  \<^verbatim>\<open>id\<close> or \<^verbatim>\<open>ts\<close>.
\<close>

theorem getRollingMemory_last_L:
  assumes "JNull \<notin> set (s_messages S)" and "0 \<le> L"
  shows "\<exists>out. getRollingMemory (Some (session_json S)) (Some L) = Inr out
     \<and> length out = min (nat L) (length (s_messages S))
     \<and> (\<forall>i < length out.
          m_role (out ! i) = opt_prop (Some (s_messages S ! (length (s_messages S) - length out + i))) ''role''
        \<and> m_text (out ! i) = opt_prop (Some (s_messages S ! (length (s_messages S) - length out + i))) ''text'')"
proof -
  let ?ms = "s_messages S"
  let ?k = "nat (max 0 (int (length ?ms) - L))"
  let ?out = "map (\<lambda>m. \<lparr>m_role = opt_prop (Some m) ''role'', m_text = opt_prop (Some m) ''text''\<rparr>)
                (drop ?k ?ms)"
  have eq: "getRollingMemory (Some (session_json S)) (Some L) = Inr ?out"
    using rolling_slice [OF assms(1), of "Some L"] by simp
  have len: "length ?out = min (nat L) (length ?ms)"
    using assms(2) by auto
  have k: "?k = length ?ms - length ?out"
    using assms(2) by auto
  have nth: "m_role (?out ! i) = opt_prop (Some (?ms ! (length ?ms - length ?out + i))) ''role''
        \<and> m_text (?out ! i) = opt_prop (Some (?ms ! (length ?ms - length ?out + i))) ''text''"
    if "i < length ?out" for i
  proof -
    from that have i: "i < length (drop ?k ?ms)" by simp
    have "?out ! i = \<lparr>m_role = opt_prop (Some (drop ?k ?ms ! i)) ''role'',
                      m_text = opt_prop (Some (drop ?k ?ms ! i)) ''text''\<rparr>"
      using i by (rule nth_map)
    moreover have "drop ?k ?ms ! i = ?ms ! (?k + i)"
      using i by simp
    ultimately show ?thesis
      using k by simp
  qed
  show ?thesis
    using eq len nth by blast
qed

theorem getRollingMemory_last_L_witness:
  "getRollingMemory (Some (session_json
      \<lparr>s_id = ''s1'', s_title = ''T'', s_createdAt = ''c'', s_updatedAt = ''u'',
       s_messages = [JObj [(''id'', JStr ''m1''), (''role'', JStr ''user''), (''text'', JStr ''a''), (''ts'', JStr ''t1'')],
                     JObj [(''id'', JStr ''m2''), (''role'', JStr ''assistant''), (''text'', JStr ''b''), (''ts'', JStr ''t2'')],
                     JObj [(''id'', JStr ''m3''), (''role'', JStr ''user''), (''text'', JStr ''c''), (''ts'', JStr ''t3'')]]\<rparr>))
     (Some 2)
   = Inr [\<lparr>m_role = Some (JStr ''assistant''), m_text = Some (JStr ''b'')\<rparr>,
          \<lparr>m_role = Some (JStr ''user''), m_text = Some (JStr ''c'')\<rparr>]"
proof -
  let ?S = "\<lparr>s_id = ''s1'', s_title = ''T'', s_createdAt = ''c'', s_updatedAt = ''u'',
       s_messages = [JObj [(''id'', JStr ''m1''), (''role'', JStr ''user''), (''text'', JStr ''a''), (''ts'', JStr ''t1'')],
                     JObj [(''id'', JStr ''m2''), (''role'', JStr ''assistant''), (''text'', JStr ''b''), (''ts'', JStr ''t2'')],
                     JObj [(''id'', JStr ''m3''), (''role'', JStr ''user''), (''text'', JStr ''c''), (''ts'', JStr ''t3'')]]\<rparr>"
  have h1: "JNull \<notin> set (s_messages ?S)" by simp
  have h2: "(0::int) \<le> 2" by simp
  from getRollingMemory_last_L [OF h1 h2]
  obtain out where o: "getRollingMemory (Some (session_json ?S)) (Some 2) = Inr out"
    and l: "length out = min (nat 2) (length (s_messages ?S))"
    and n: "\<forall>i < length out.
          m_role (out ! i) = opt_prop (Some (s_messages ?S ! (length (s_messages ?S) - length out + i))) ''role''
        \<and> m_text (out ! i) = opt_prop (Some (s_messages ?S ! (length (s_messages ?S) - length out + i))) ''text''"
    by blast
  from l have l2: "length out = 2" by simp
  then obtain a b where ab: "out = [a, b]"
    by (metis (no_types, opaque_lifting) One_nat_def Suc_1 length_0_conv length_Suc_conv)
  from n l2 have "m_role (out ! 0) = Some (JStr ''assistant'')" "m_text (out ! 0) = Some (JStr ''b'')"
      "m_role (out ! 1) = Some (JStr ''user'')" "m_text (out ! 1) = Some (JStr ''c'')"
    by (simp_all add: numeral_2_eq_2)
  with ab have "a = \<lparr>m_role = Some (JStr ''assistant''), m_text = Some (JStr ''b'')\<rparr>"
     "b = \<lparr>m_role = Some (JStr ''user''), m_text = Some (JStr ''c'')\<rparr>"
    by simp_all
  with o ab show ?thesis by simp
qed


section \<open>Properties of the session store\<close>

lemma uid_nonempty: "uid e p \<noteq> []"
  by (simp add: uid_def)

lemma string_or_JStr: "string_or ns (Some (JStr s)) b = Inr (if s \<noteq> [] then s else b)"
  by (simp add: string_or_def)

lemma ensureShape_session_json:
  assumes "s_id S \<noteq> []" "s_title S \<noteq> []" "s_createdAt S \<noteq> []" "s_updatedAt S \<noteq> []"
  shows "ensureShape ns e (Some (session_json S)) = Inr S"
  using assms by (simp add: ensureShape_def Let_def session_json_def string_or_JStr)

lemma ensureShape_keeps_string_id:
  assumes "ensureShape ns e x = Inr sh" and "opt_prop x ''id'' = Some (JStr i)" and "i \<noteq> []"
  shows "s_id sh = i"
  using assms
  by (auto simp: ensureShape_def Let_def string_or_JStr split: sum.splits)

lemma member_has_id: "x \<noteq> JNull \<Longrightarrow> member x ''id'' = Inr v \<Longrightarrow> strict_eq v i = has_id x i"
  by (simp add: member_not_null has_id_def)

lemma findIndex_id_total:
  "JNull \<notin> set xs \<Longrightarrow> \<exists>r. findIndex_id xs i = Inr r"
proof (induction xs)
  case Nil show ?case by simp
next
  case (Cons x xs)
  then obtain r where r: "findIndex_id xs i = Inr r" by auto
  from Cons.prems have "x \<noteq> JNull" by auto
  then show ?case using r by (simp add: member_not_null split: option.splits)
qed

lemma findIndex_id_None:
  "JNull \<notin> set xs \<Longrightarrow> findIndex_id xs i = Inr None \<Longrightarrow> \<forall>x\<in>set xs. \<not> has_id x i"
proof (induction xs)
  case Nil show ?case by simp
next
  case (Cons x xs)
  from Cons.prems(1) have x: "x \<noteq> JNull" and xs: "JNull \<notin> set xs" by auto
  from Cons.prems(2) x have "\<not> has_id x i" "findIndex_id xs i = Inr None"
    by (auto simp: member_not_null has_id_def split: if_splits sum.splits option.splits)
  with Cons.IH [OF xs] show ?case by simp
qed

lemma findIndex_id_Some:
  "JNull \<notin> set xs \<Longrightarrow> findIndex_id xs i = Inr (Some k) \<Longrightarrow>
   k < length xs \<and> has_id (xs ! k) i \<and> (\<forall>j<k. \<not> has_id (xs ! j) i)"
proof (induction xs arbitrary: k)
  case Nil then show ?case by simp
next
  case (Cons x xs)
  from Cons.prems(1) have x: "x \<noteq> JNull" and xs: "JNull \<notin> set xs" by auto
  show ?case
  proof (cases "has_id x i")
    case True
    with Cons.prems(2) x have "k = 0"
      by (simp add: member_not_null has_id_def)
    with True show ?thesis by simp
  next
    case False
    with Cons.prems(2) x obtain n where n: "findIndex_id xs i = Inr (Some n)" and k: "k = Suc n"
      by (auto simp: member_not_null has_id_def split: sum.splits option.splits)
    from Cons.IH [OF xs n] have ih: "n < length xs" "has_id (xs ! n) i" "\<forall>j<n. \<not> has_id (xs ! j) i"
      by auto
    have "\<not> has_id ((x # xs) ! j) i" if "j < k" for j
      using that False ih(3) k by (cases j) auto
    with ih k show ?thesis by simp
  qed
qed

lemma find_id_first:
  "JNull \<notin> set xs \<Longrightarrow> k < length xs \<Longrightarrow> has_id (xs ! k) i \<Longrightarrow> \<forall>j<k. \<not> has_id (xs ! j) i \<Longrightarrow>
   find_id xs i = Inr (Some (xs ! k))"
proof (induction xs arbitrary: k)
  case Nil then show ?case by simp
next
  case (Cons x xs)
  from Cons.prems(1) have x: "x \<noteq> JNull" and xs: "JNull \<notin> set xs" by auto
  show ?case
  proof (cases k)
    case 0
    with Cons.prems(3) x show ?thesis by (simp add: member_not_null has_id_def)
  next
    case (Suc n)
    with Cons.prems have n: "n < length xs" "has_id (xs ! n) i" by auto
    from Cons.prems(4) Suc have nx: "\<not> has_id x i" by auto
    have "\<forall>j<n. \<not> has_id (xs ! j) i"
      using Cons.prems(4) Suc by auto
    from Cons.IH [OF xs n this] nx x Suc show ?thesis
      by (simp add: member_not_null has_id_def)
  qed
qed

lemma has_id_session_json: "has_id (session_json S) (Some (JStr (s_id S)))"
  by (simp add: has_id_def session_json_def)

lemma session_json_not_null: "session_json S \<noteq> JNull"
  by (simp add: session_json_def)

lemma loadAll_saveAll: "loadAll (saveAll xs st) = xs"
  by (simp add: loadAll_def saveAll_def)

lemma loadAll_setActiveId: "loadAll (setActiveId i st) = loadAll st"
  by (simp add: loadAll_def setActiveId_def)

lemma getActiveId_setActiveId: "getActiveId (setActiveId i st) = i"
  by (simp add: getActiveId_def setActiveId_def)

lemma getById_found:
  assumes "find_id (loadAll st) i = Inr (Some z)" and "truthy (Some z)"
    and "ensureShape ns e (Some z) = Inr s"
  shows "getById ns e st i = Inr (Some s)"
  using assms by (simp add: getById_def)

lemma truthy_session_json: "truthy (Some (session_json S))"
  by (simp add: session_json_def)

lemma find_id_exists:
  "JNull \<notin> set xs \<Longrightarrow> \<exists>y\<in>set xs. has_id y i \<Longrightarrow>
   \<exists>z. find_id xs i = Inr (Some z) \<and> z \<in> set xs \<and> has_id z i"
proof (induction xs)
  case Nil then show ?case by simp
next
  case (Cons x xs)
  from Cons.prems(1) have x: "x \<noteq> JNull" and xs: "JNull \<notin> set xs" by auto
  show ?case
  proof (cases "has_id x i")
    case True
    then have "find_id (x # xs) i = Inr (Some x)"
      using x by (simp add: member_not_null has_id_def)
    with True show ?thesis by simp
  next
    case False
    with Cons.prems(2) have "\<exists>y\<in>set xs. has_id y i" by auto
    from Cons.IH [OF xs this] obtain z where z: "find_id xs i = Inr (Some z)" "z \<in> set xs" "has_id z i"
      by blast
    have "find_id (x # xs) i = find_id xs i"
      using False x by (simp add: member_not_null has_id_def)
    with z show ?thesis by simp
  qed
qed

lemma has_id_session_json_iff:
  "has_id (session_json S) (Some (JStr p)) = (s_id S = p)"
  by (simp add: has_id_def session_json_def)

lemma shape_all_stored:
  "\<forall>S\<in>set Ss. s_id S \<noteq> [] \<and> s_title S \<noteq> [] \<and> s_createdAt S \<noteq> [] \<and> s_updatedAt S \<noteq> [] \<Longrightarrow>
   shape_all ns envs k (map session_json Ss) = Inr Ss"
  by (induction Ss arbitrary: k) (simp_all add: ensureShape_session_json)

text \<open>
  A store holding sessions as the store itself writes them (no empty field), with a
  non-empty pointer to one of them, is in the state the self-healing routine is to
  establish.
\<close>

lemma well_kept_stored:
  assumes ok: "\<forall>S\<in>set Ss. s_id S \<noteq> [] \<and> s_title S \<noteq> [] \<and> s_createdAt S \<noteq> [] \<and> s_updatedAt S \<noteq> []"
    and la: "loadAll st = map session_json Ss"
    and Y: "Y \<in> set Ss" "s_id Y = p"
    and act: "getActiveId st = p"
  shows "well_kept ns e st"
proof -
  have nonull: "JNull \<notin> set (loadAll st)"
    using la by (auto simp: session_json_def)
  have "\<exists>y\<in>set (loadAll st). has_id y (Some (JStr p))"
    using la Y by (auto simp: has_id_session_json_iff)
  from find_id_exists [OF nonull this] obtain z where
    z: "find_id (loadAll st) (Some (JStr p)) = Inr (Some z)" "z \<in> set (loadAll st)"
       "has_id z (Some (JStr p))"
    by blast
  from z(2) la obtain Z where Z: "Z \<in> set Ss" "z = session_json Z" by auto
  from z(3) Z(2) have zp: "s_id Z = p" by (simp add: has_id_session_json_iff)
  have "ensureShape ns e (Some z) = Inr Z"
    using ok Z by (simp add: ensureShape_session_json)
  from getById_found [OF z(1) _ this] Z(2)
  have "getById ns e st (Some (JStr p)) = Inr (Some Z)"
    by (simp add: truthy_session_json)
  moreover have "p \<noteq> []" using ok Y by auto
  moreover have "loadAll st \<noteq> []" using la Y(1) by auto
  ultimately show ?thesis
    using act zp by (simp add: well_kept_def)
qed

lemma created_nonempty:
  "s_id (createNewSession e ''Operator Session'') \<noteq> []"
  by (simp add: createNewSession_def Let_def uid_nonempty)

text \<open>
  Whatever the store held, \<^verbatim>\<open>deleteAllSessions()\<close> followed by
  \<^verbatim>\<open>ensureAtLeastOneSession()\<close> leaves exactly one session, the new Operator Session, with
  the active pointer on it; if the clock gave a time stamp, \<^verbatim>\<open>getById\<close> of the pointer
  returns it.
\<close>

lemma clearAllSessions_result:
  "clearAllSessions ns envs b =
     Inr (b\<lparr>sessions :=
              \<lparr>sessions_cell = Some (JArr [session_json (createNewSession (envs 0) ''Operator Session'')]),
               active_cell = s_id (createNewSession (envs 0) ''Operator Session'')\<rparr>,
            activeSessionId := s_id (createNewSession (envs 0) ''Operator Session'')\<rparr>)"
  by (cases b, cases "sessions b")
     (simp add: clearAllSessions_def ensureAtLeastOneSession_def deleteAllSessions_def Let_def
      loadAll_def saveAll_def setActiveId_def getActiveId_def)

lemma clearAllSessions_well_kept:
  assumes "nowIso (envs 0) \<noteq> []"
  shows "\<exists>b'. clearAllSessions ns envs b = Inr b'
     \<and> loadAll (sessions b') = [session_json (createNewSession (envs 0) ''Operator Session'')]
     \<and> getActiveId (sessions b') = s_id (createNewSession (envs 0) ''Operator Session'')
     \<and> well_kept ns e (sessions b')"
proof -
  let ?c = "createNewSession (envs 0) ''Operator Session''"
  let ?st = "\<lparr>sessions_cell = Some (JArr [session_json ?c]), active_cell = s_id ?c\<rparr>"
  have ok: "\<forall>S\<in>set [?c]. s_id S \<noteq> [] \<and> s_title S \<noteq> [] \<and> s_createdAt S \<noteq> [] \<and> s_updatedAt S \<noteq> []"
    using assms by (simp add: createNewSession_def Let_def uid_nonempty)
  have la: "loadAll ?st = map session_json [?c]" by (simp add: loadAll_def)
  have "well_kept ns e ?st"
    by (rule well_kept_stored [OF ok la, of ?c]) (simp_all add: getActiveId_def)
  then show ?thesis
    by (simp add: clearAllSessions_result loadAll_def getActiveId_def)
qed

text \<open>
  On a store holding sessions as the store itself writes them, \<^verbatim>\<open>ensureAtLeastOneSession()\<close>
  establishes that state, whatever the pointer was.
\<close>

lemma ensureAtLeastOneSession_stored:
  assumes ok: "\<forall>S\<in>set Ss. s_id S \<noteq> [] \<and> s_title S \<noteq> [] \<and> s_createdAt S \<noteq> [] \<and> s_updatedAt S \<noteq> []"
    and la: "loadAll (sessions a) = map session_json Ss"
    and now: "nowIso (envs 0) \<noteq> []"
  shows "\<exists>a'. ensureAtLeastOneSession ns envs a = Inr a' \<and> well_kept ns e (sessions a')"
proof (cases Ss)
  case Nil
  let ?c = "createNewSession (envs 0) ''Operator Session''"
  let ?st = "setActiveId (s_id ?c) (saveAll [session_json ?c] (sessions a))"
  have okc: "\<forall>S\<in>set [?c]. s_id S \<noteq> [] \<and> s_title S \<noteq> [] \<and> s_createdAt S \<noteq> [] \<and> s_updatedAt S \<noteq> []"
    using now by (simp add: createNewSession_def Let_def uid_nonempty)
  have lac: "loadAll ?st = map session_json [?c]"
    by (simp add: loadAll_setActiveId loadAll_saveAll)
  have wk: "well_kept ns e ?st"
    by (rule well_kept_stored [OF okc lac, of ?c]) (simp_all add: getActiveId_setActiveId)
  have "ensureAtLeastOneSession ns envs a = Inr (a\<lparr>sessions := ?st, activeSessionId := s_id ?c\<rparr>)"
    using Nil la by (simp add: ensureAtLeastOneSession_def Let_def)
  with wk show ?thesis by simp
next
  case (Cons F Fs)
  have sh: "shape_all ns envs 0 (loadAll (sessions a)) = Inr (F # Fs)"
    using shape_all_stored [OF ok] la Cons by simp
  show ?thesis
  proof (cases "getActiveId (sessions a) = [] \<or> \<not> list_ex (\<lambda>s. s_id s = getActiveId (sessions a)) (F # Fs)")
    case True
    let ?st = "setActiveId (s_id F) (sessions a)"
    have eq: "ensureAtLeastOneSession ns envs a = Inr (a\<lparr>sessions := ?st, activeSessionId := s_id F\<rparr>)"
      using True sh by (simp add: ensureAtLeastOneSession_def Let_def)
    have la': "loadAll ?st = map session_json Ss"
      using la by (simp add: loadAll_setActiveId)
    have "well_kept ns e ?st"
      by (rule well_kept_stored [OF ok la', of F]) (simp_all add: Cons getActiveId_setActiveId)
    with eq show ?thesis by simp
  next
    case False
    then have ex: "list_ex (\<lambda>s. s_id s = getActiveId (sessions a)) (F # Fs)" by blast
    have eq: "ensureAtLeastOneSession ns envs a = Inr (a\<lparr>activeSessionId := getActiveId (sessions a)\<rparr>)"
      using False sh by (auto simp add: ensureAtLeastOneSession_def Let_def)
    from ex obtain Y where Y: "Y \<in> set Ss" "s_id Y = getActiveId (sessions a)"
      using Cons by (auto simp: list_ex_iff)
    have "well_kept ns e (sessions a)"
      by (rule well_kept_stored [OF ok la Y refl])
    with eq show ?thesis by simp
  qed
qed

text \<open>
  C2. The self-healing routine fails on a persisted entry without an id, in a store
  that \<^verbatim>\<open>loadAll\<close> and \<^verbatim>\<open>ensureShape\<close> accept. The routine shapes the entry in memory,
  which gives it a fresh id, and points the active pointer at that id; the collection is
  not rewritten, so the pointer names no persisted session and \<^verbatim>\<open>getById\<close> of it
  returns \<^verbatim>\<open>null\<close>.
\<close>

theorem ensureAtLeastOneSession_dangling:
  "ensureAtLeastOneSession show_int sample_env
      \<lparr>sessions = \<lparr>sessions_cell = Some (JArr [JObj [(''title'', JStr ''Old chat''), (''messages'', JArr [])]]),
                    active_cell = []\<rparr>,
       activeSessionId = []\<rparr>
     = Inr \<lparr>sessions = \<lparr>sessions_cell = Some (JArr [JObj [(''title'', JStr ''Old chat''), (''messages'', JArr [])]]),
                          active_cell = uid (sample_env 0) ''sess''\<rparr>,
            activeSessionId = uid (sample_env 0) ''sess''\<rparr>
   \<and> getById show_int (sample_env 1)
        \<lparr>sessions_cell = Some (JArr [JObj [(''title'', JStr ''Old chat''), (''messages'', JArr [])]]),
         active_cell = uid (sample_env 0) ''sess''\<rparr>
        (Some (JStr (uid (sample_env 0) ''sess'')))
     = Inr None
   \<and> \<not> well_kept show_int (sample_env 1)
        \<lparr>sessions_cell = Some (JArr [JObj [(''title'', JStr ''Old chat''), (''messages'', JArr [])]]),
         active_cell = uid (sample_env 0) ''sess''\<rparr>"
  by (simp add: well_kept_def ensureAtLeastOneSession_def Let_def loadAll_def getActiveId_def
      setActiveId_def getById_def ensureShape_def string_or_def)

text \<open>
  C4. \<^verbatim>\<open>ensureShape\<close> is not idempotent on a record whose title is the empty array. The
  array is truthy, so \<^verbatim>\<open>String(s?.title || 'Session')\<close> converts it, to the empty string;
  applied to its own result, \<^verbatim>\<open>ensureShape\<close> finds the empty string falsy and puts
  \<^verbatim>\<open>'Session'\<close> in its place.
\<close>

theorem ensureShape_not_idempotent_on_empty_array:
  "ensureShape show_int (sample_env 0) (Some (JObj [(''id'', JStr ''s1''), (''title'', JArr [])]))
     = Inr \<lparr>s_id = ''s1'', s_title = [], s_createdAt = nowIso (sample_env 0),
            s_updatedAt = nowIso (sample_env 0), s_messages = []\<rparr>
   \<and> ensureShape show_int (sample_env 0)
        (Some (session_json \<lparr>s_id = ''s1'', s_title = [], s_createdAt = nowIso (sample_env 0),
            s_updatedAt = nowIso (sample_env 0), s_messages = []\<rparr>))
     = Inr \<lparr>s_id = ''s1'', s_title = ''Session'', s_createdAt = nowIso (sample_env 0),
            s_updatedAt = nowIso (sample_env 0), s_messages = []\<rparr>"
  by (simp add: ensureShape_def Let_def session_json_def string_or_def sample_env_def)

lemma upsertSession_null_entry:
  "ensureShape ns e x = Inr sh \<Longrightarrow>
   upsertSession ns e x \<lparr>sessions_cell = Some (JArr [JNull]), active_cell = []\<rparr> = Inl TypeError"
  by (simp add: upsertSession_def loadAll_def Let_def)

lemma ensureShape_throws:
  "ensureShape ns e (Some (JObj [(''id'', JStr ''s1''), (''title'', JObj [(''toString'', JNum 1)])]))
     = Inl TypeError"
  by (simp add: ensureShape_def Let_def string_or_def)

text \<open>
  C3, as the code has it. On a store without \<^verbatim>\<open>null\<close> entries: when \<^verbatim>\<open>ensureShape(s)\<close>
  throws (a field that \<^verbatim>\<open>String\<close> cannot convert), \<^verbatim>\<open>upsertSession(s)\<close> throws too; otherwise
  \<^verbatim>\<open>upsertSession(s)\<close> returns \<^verbatim>\<open>ensureShape(s)\<close> and either overwrites, in place, the
  first entry whose id equals the id of the shaped session, or, when no entry has that id,
  puts the shaped session in front. When no field of the shaped session is the empty
  string, \<^verbatim>\<open>getById\<close> of the shaped session's id then returns \<^verbatim>\<open>ensureShape(s)\<close>; and
  that id is \<^verbatim>\<open>s.id\<close> whenever \<^verbatim>\<open>s.id\<close> is a non-empty string.
\<close>

theorem upsertSession_then_getById:
  assumes nonull: "JNull \<notin> set (loadAll st)"
  shows "(\<forall>err. ensureShape ns e x = Inl err \<longrightarrow> upsertSession ns e x st = Inl err)
    \<and> (\<forall>sh. ensureShape ns e x = Inr sh \<longrightarrow>
         (\<exists>st'. upsertSession ns e x st = Inr (sh, st')
            \<and> ((\<exists>k<length (loadAll st).
                    has_id (loadAll st ! k) (Some (JStr (s_id sh)))
                  \<and> (\<forall>j<k. \<not> has_id (loadAll st ! j) (Some (JStr (s_id sh))))
                  \<and> loadAll st' = (loadAll st)[k := session_json sh])
               \<or> ((\<forall>y\<in>set (loadAll st). \<not> has_id y (Some (JStr (s_id sh))))
                  \<and> loadAll st' = session_json sh # loadAll st))
            \<and> (s_id sh \<noteq> [] \<and> s_title sh \<noteq> [] \<and> s_createdAt sh \<noteq> [] \<and> s_updatedAt sh \<noteq> [] \<longrightarrow>
                  getById ns e' st' (Some (JStr (s_id sh))) = Inr (Some sh))
            \<and> (\<forall>i. opt_prop x ''id'' = Some (JStr i) \<and> i \<noteq> [] \<longrightarrow>
                  opt_prop x ''id'' = Some (JStr (s_id sh)))))"
proof (intro conjI allI impI)
  fix err assume "ensureShape ns e x = Inl err"
  then show "upsertSession ns e x st = Inl err"
    by (simp add: upsertSession_def Let_def)
next
  fix sh assume sh: "ensureShape ns e x = Inr sh"
  let ?all = "loadAll st"
  let ?J = "session_json sh"
  let ?i = "Some (JStr (s_id sh))"
  have same_id: "opt_prop x ''id'' = ?i" if "opt_prop x ''id'' = Some (JStr i) \<and> i \<noteq> []" for i
    using that ensureShape_keeps_string_id [OF sh, of i] by simp
  have idem: "ensureShape ns e' (Some ?J) = Inr sh"
    if "s_id sh \<noteq> [] \<and> s_title sh \<noteq> [] \<and> s_createdAt sh \<noteq> [] \<and> s_updatedAt sh \<noteq> []"
    using that by (simp add: ensureShape_session_json)
  obtain r where r: "findIndex_id ?all ?i = Inr r"
    using findIndex_id_total [OF nonull] by blast
  show "\<exists>st'. upsertSession ns e x st = Inr (sh, st')
            \<and> ((\<exists>k<length (loadAll st).
                    has_id (loadAll st ! k) (Some (JStr (s_id sh)))
                  \<and> (\<forall>j<k. \<not> has_id (loadAll st ! j) (Some (JStr (s_id sh))))
                  \<and> loadAll st' = (loadAll st)[k := session_json sh])
               \<or> ((\<forall>y\<in>set (loadAll st). \<not> has_id y (Some (JStr (s_id sh))))
                  \<and> loadAll st' = session_json sh # loadAll st))
            \<and> (s_id sh \<noteq> [] \<and> s_title sh \<noteq> [] \<and> s_createdAt sh \<noteq> [] \<and> s_updatedAt sh \<noteq> [] \<longrightarrow>
                  getById ns e' st' (Some (JStr (s_id sh))) = Inr (Some sh))
            \<and> (\<forall>i. opt_prop x ''id'' = Some (JStr i) \<and> i \<noteq> [] \<longrightarrow>
                  opt_prop x ''id'' = Some (JStr (s_id sh)))"
  proof (cases r)
    case None
    let ?st' = "saveAll (?J # ?all) st"
    have up: "upsertSession ns e x st = Inr (sh, ?st')"
      using r None sh by (simp add: upsertSession_def Let_def)
    have la: "loadAll ?st' = ?J # ?all"
      by (rule loadAll_saveAll)
    have nomatch: "\<forall>y\<in>set ?all. \<not> has_id y ?i"
      using findIndex_id_None [OF nonull] r None by simp
    have "find_id (?J # ?all) ?i = Inr (Some ?J)"
      using has_id_session_json [of sh]
      by (simp add: member_not_null session_json_not_null has_id_def)
    then have f: "find_id (loadAll ?st') ?i = Inr (Some ?J)"
      using la by simp
    have gb: "getById ns e' ?st' ?i = Inr (Some sh)"
      if "s_id sh \<noteq> [] \<and> s_title sh \<noteq> [] \<and> s_createdAt sh \<noteq> [] \<and> s_updatedAt sh \<noteq> []"
      by (rule getById_found [OF f truthy_session_json idem [OF that]])
    show ?thesis
      using up la nomatch gb same_id by (metis (no_types, lifting))
  next
    case (Some k)
    let ?st' = "saveAll (?all[k := ?J]) st"
    have up: "upsertSession ns e x st = Inr (sh, ?st')"
      using r Some sh by (simp add: upsertSession_def Let_def)
    have la: "loadAll ?st' = ?all[k := ?J]"
      by (rule loadAll_saveAll)
    from findIndex_id_Some [OF nonull] r Some
    have k: "k < length ?all" "has_id (?all ! k) ?i" "\<forall>j<k. \<not> has_id (?all ! j) ?i"
      by auto
    have nn: "JNull \<notin> set (?all[k := ?J])"
      using nonull session_json_not_null [of sh]
      using set_update_subset_insert [of ?all k ?J] by auto
    have kk: "k < length (?all[k := ?J])" using k(1) by simp
    have hk: "has_id (?all[k := ?J] ! k) ?i"
      using k(1) has_id_session_json [of sh] by simp
    have before: "\<forall>j<k. \<not> has_id (?all[k := ?J] ! j) ?i"
      using k(3) by simp
    have "find_id (?all[k := ?J]) ?i = Inr (Some (?all[k := ?J] ! k))"
      by (rule find_id_first [OF nn kk hk before])
    then have f: "find_id (loadAll ?st') ?i = Inr (Some ?J)"
      using la k(1) by simp
    have gb: "getById ns e' ?st' ?i = Inr (Some sh)"
      if "s_id sh \<noteq> [] \<and> s_title sh \<noteq> [] \<and> s_createdAt sh \<noteq> [] \<and> s_updatedAt sh \<noteq> []"
      by (rule getById_found [OF f truthy_session_json idem [OF that]])
    have place: "\<exists>k<length ?all. has_id (?all ! k) ?i \<and> (\<forall>j<k. \<not> has_id (?all ! j) ?i)
        \<and> loadAll ?st' = ?all[k := ?J]"
      using k la by blast
    show ?thesis
      using up place gb same_id by (metis (no_types, lifting))
  qed
qed

theorem upsertSession_then_getById_witness:
  "\<exists>st'. upsertSession show_int (sample_env 0)
       (Some (JObj [(''id'', JStr ''s2''), (''title'', JStr ''Renamed''), (''createdAt'', JStr ''c2''),
                    (''updatedAt'', JStr ''u9''), (''messages'', JArr [])]))
       \<lparr>sessions_cell = Some (JArr [JObj [(''id'', JStr ''s1''), (''title'', JStr ''A'')],
                                       JObj [(''id'', JStr ''s2''), (''title'', JStr ''B'')]]),
        active_cell = ''s1''\<rparr>
     = Inr (\<lparr>s_id = ''s2'', s_title = ''Renamed'', s_createdAt = ''c2'', s_updatedAt = ''u9'',
              s_messages = []\<rparr>, st')
     \<and> loadAll st' = [JObj [(''id'', JStr ''s1''), (''title'', JStr ''A'')],
          session_json \<lparr>s_id = ''s2'', s_title = ''Renamed'', s_createdAt = ''c2'', s_updatedAt = ''u9'',
              s_messages = []\<rparr>]
     \<and> getById show_int (sample_env 1) st' (Some (JStr ''s2''))
       = Inr (Some \<lparr>s_id = ''s2'', s_title = ''Renamed'', s_createdAt = ''c2'', s_updatedAt = ''u9'',
              s_messages = []\<rparr>)"
proof -
  let ?x = "Some (JObj [(''id'', JStr ''s2''), (''title'', JStr ''Renamed''), (''createdAt'', JStr ''c2''),
                    (''updatedAt'', JStr ''u9''), (''messages'', JArr [])])"
  let ?st = "\<lparr>sessions_cell = Some (JArr [JObj [(''id'', JStr ''s1''), (''title'', JStr ''A'')],
                                       JObj [(''id'', JStr ''s2''), (''title'', JStr ''B'')]]),
        active_cell = ''s1''\<rparr>"
  let ?S = "\<lparr>s_id = ''s2'', s_title = ''Renamed'', s_createdAt = ''c2'', s_updatedAt = ''u9'',
              s_messages = []\<rparr>"
  have sh: "ensureShape show_int (sample_env 0) ?x = Inr ?S"
    by (simp add: ensureShape_def Let_def string_or_def)
  have la: "loadAll ?st = [JObj [(''id'', JStr ''s1''), (''title'', JStr ''A'')],
                           JObj [(''id'', JStr ''s2''), (''title'', JStr ''B'')]]"
    by (simp add: loadAll_def)
  have h0: "JNull \<notin> set (loadAll ?st)" by (simp add: la)
  have ne: "s_id ?S \<noteq> [] \<and> s_title ?S \<noteq> [] \<and> s_createdAt ?S \<noteq> [] \<and> s_updatedAt ?S \<noteq> []"
    by simp
  from upsertSession_then_getById [OF h0, of show_int "sample_env 0" ?x "sample_env 1"] sh ne
  obtain st' where up: "upsertSession show_int (sample_env 0) ?x ?st = Inr (?S, st')"
    and gb: "getById show_int (sample_env 1) st' (Some (JStr (s_id ?S))) = Inr (Some ?S)"
    by blast
  have "upsertSession show_int (sample_env 0) ?x ?st
      = Inr (?S, saveAll ((loadAll ?st)[1 := session_json ?S]) ?st)"
    by (simp add: upsertSession_def Let_def sh la has_id_def)
  with up have "st' = saveAll ((loadAll ?st)[1 := session_json ?S]) ?st" by simp
  then have "loadAll st' = [JObj [(''id'', JStr ''s1''), (''title'', JStr ''A'')], session_json ?S]"
    by (simp add: loadAll_saveAll la)
  with up gb show ?thesis by auto
qed

text \<open>
  C3 as stated fails on a record without an id, which \<^verbatim>\<open>ensureShape\<close> is there to
  accept: the session is stored under a fresh id, and \<^verbatim>\<open>getById(s.id)\<close>, that is
  \<^verbatim>\<open>getById(undefined)\<close>, finds nothing.
\<close>

theorem upsertSession_without_id_not_found:
  "upsertSession show_int (sample_env 0) (Some (JObj [(''title'', JStr ''Draft'')]))
       \<lparr>sessions_cell = None, active_cell = []\<rparr>
     = Inr (\<lparr>s_id = uid (sample_env 0) ''sess'', s_title = ''Draft'',
              s_createdAt = nowIso (sample_env 0), s_updatedAt = nowIso (sample_env 0),
              s_messages = []\<rparr>,
            \<lparr>sessions_cell = Some (JArr [session_json
                 \<lparr>s_id = uid (sample_env 0) ''sess'', s_title = ''Draft'',
                  s_createdAt = nowIso (sample_env 0), s_updatedAt = nowIso (sample_env 0),
                  s_messages = []\<rparr>]),
             active_cell = []\<rparr>)
   \<and> getById show_int (sample_env 1)
       \<lparr>sessions_cell = Some (JArr [session_json
                 \<lparr>s_id = uid (sample_env 0) ''sess'', s_title = ''Draft'',
                  s_createdAt = nowIso (sample_env 0), s_updatedAt = nowIso (sample_env 0),
                  s_messages = []\<rparr>]),
        active_cell = []\<rparr>
       (opt_prop (Some (JObj [(''title'', JStr ''Draft'')])) ''id'')
     = Inr None"
  by (simp add: upsertSession_def getById_def loadAll_def saveAll_def Let_def session_json_def
      ensureShape_def string_or_def)

section \<open>Properties of the generation client\<close>

lemma clamp_NaN: "clamp NaN mn mx = NaN"
  by (simp add: clamp_def Math_min_def Math_max_def)

lemma clamp_Fin: "lo \<le> hi \<Longrightarrow> clamp (Fin r) (Fin lo) (Fin hi) = Fin (max lo (min hi r))"
  by (auto simp: clamp_def Math_min_def Math_max_def)

lemma clamp_PosInf: "clamp PosInf (Fin lo) (Fin hi) = Fin (max lo hi)"
  by (auto simp: clamp_def Math_min_def Math_max_def)

lemma clamp_NegInf: "clamp NegInf (Fin lo) (Fin hi) = Fin lo"
  by (auto simp: clamp_def Math_min_def Math_max_def)

lemma generate_sends_payload:
  "apiKey st \<noteq> [] \<Longrightarrow> build_payload ns st memoryMessages = Inr p \<Longrightarrow>
   fst (generate ns st memoryMessages outcome elapsed) = Some p"
  by (simp add: generate_def)

text \<open>
  What \<^verbatim>\<open>generate\<close> puts into the request for every settings object: the default when
  a value is absent, the nearest bound when it lies outside the range, the value itself
  when it lies inside, and \<^verbatim>\<open>NaN\<close> when it is \<^verbatim>\<open>NaN\<close>.
\<close>

lemma build_payload_config:
  assumes "build_payload ns st memoryMessages = Inr p"
  shows "cfg_temperature p =
           (case temperature st of
              None \<Rightarrow> Fin (4 / 10)
            | Some NaN \<Rightarrow> NaN
            | Some NegInf \<Rightarrow> Fin 0
            | Some PosInf \<Rightarrow> Fin 1
            | Some (Fin r) \<Rightarrow> Fin (max 0 (min 1 r)))"
    and "cfg_maxOutputTokens p =
           (case maxTokens st of
              None \<Rightarrow> Fin 512
            | Some NaN \<Rightarrow> NaN
            | Some NegInf \<Rightarrow> Fin 1
            | Some PosInf \<Rightarrow> Fin 2048
            | Some (Fin r) \<Rightarrow> Fin (max 1 (min 2048 r)))"
  using assms
  by (auto simp: build_payload_def Let_def clamp_NaN clamp_Fin clamp_PosInf clamp_NegInf
      split: sum.splits option.splits jsnum.splits)

lemma build_payload_in_range:
  assumes "build_payload ns st memoryMessages = Inr p"
    and "temperature st \<noteq> Some NaN" and "maxTokens st \<noteq> Some NaN"
  shows "in_range (cfg_temperature p) 0 1" and "in_range (cfg_maxOutputTokens p) 1 2048"
  using assms(2,3) build_payload_config [OF assms(1)]
  by (auto simp: in_range_def split: option.splits jsnum.splits)

text \<open>
  C9. The clamp lets \<^verbatim>\<open>NaN\<close> through: \<^verbatim>\<open>Math.min\<close> and \<^verbatim>\<open>Math.max\<close> return \<^verbatim>\<open>NaN\<close> when
  an argument is \<^verbatim>\<open>NaN\<close>, and \<^verbatim>\<open>??\<close> replaces only \<^verbatim>\<open>null\<close> and \<^verbatim>\<open>undefined\<close>. With a
  temperature setting that is \<^verbatim>\<open>NaN\<close>, the request that \<^verbatim>\<open>generate\<close> hands to \<^verbatim>\<open>fetch\<close>
  carries a temperature that is no number in [0, 1].
\<close>

theorem generate_payload_NaN:
  "fst (generate show_int \<lparr>apiKey = ''k'', temperature = Some NaN, maxTokens = Some (Fin 512)\<rparr>
          [\<lparr>m_role = Some (JStr ''user''), m_text = Some (JStr ''hi'')\<rparr>] Rejected 0)
     = Some \<lparr>systemInstruction = buildSystemInstruction,
             contents = [\<lparr>g_role = ''user'', g_text = ''hi''\<rparr>],
             cfg_temperature = NaN, cfg_maxOutputTokens = Fin 512\<rparr>
   \<and> \<not> in_range NaN 0 1"
  by (simp add: generate_def build_payload_def Let_def clamp_def Math_min_def Math_max_def
      in_range_def)

lemma messageFromServer_string:
  "opt_prop (opt_prop (Some parsed) ''error'') ''message'' = Some (JStr m) \<Longrightarrow>
   messageFromServer ns parsed = Inr m"
  by (simp add: messageFromServer_def)

lemma messageFromServer_falsy:
  "\<not> truthy (opt_prop (opt_prop (Some parsed) ''error'') ''message'') \<Longrightarrow>
   messageFromServer ns parsed = Inr []"
  by (simp add: messageFromServer_def)

lemma messageFromServer_truthy:
  "opt_prop (opt_prop (Some parsed) ''error'') ''message'' = Some v \<Longrightarrow> truthy (Some v) \<Longrightarrow>
   messageFromServer ns parsed = js_string ns v"
  by (simp add: messageFromServer_def)

text \<open>
  What \<^verbatim>\<open>generate\<close> does with a response whose status is not one of 200 to 299, once
  the request is built: when the conversion of the server's message throws, the TypeError
  leaves \<^verbatim>\<open>generate\<close>; otherwise the error thrown carries the status, the parsed body, the
  elapsed time, and as its message the server's message if that is not empty, else
  \<^verbatim>\<open>Gemini request failed (HTTP N).\<close>
\<close>

lemma generate_upstream_error:
  assumes "apiKey st \<noteq> []" and "build_payload ns st memoryMessages = Inr p"
    and "\<not> ok_status status"
  shows "messageFromServer ns (safeJsonParse_null body) = Inl err \<Longrightarrow>
         snd (generate ns st memoryMessages (Response status body) elapsed) = Inl RuntimeTypeError"
    and "messageFromServer ns (safeJsonParse_null body) = Inr m \<Longrightarrow>
         snd (generate ns st memoryMessages (Response status body) elapsed)
           = Inl (Thrown \<lparr>e_message = (if m \<noteq> [] then m
                                       else ''Gemini request failed (HTTP '' @ ns status @ '').''),
                          e_status = status, e_details = Some (safeJsonParse_null body),
                          e_elapsedMs = Some elapsed\<rparr>)"
  using assms by (simp_all add: generate_def Let_def)

lemma show_nat_403: "show_nat 403 = ''403''"
  by (simp add: show_nat.simps digit_char_def)

text \<open>The example of section 8 of the specification: status 403, message \<^verbatim>\<open>bad key\<close>.\<close>

lemma generate_403_bad_key:
  "snd (generate show_int \<lparr>apiKey = ''k'', temperature = None, maxTokens = None\<rparr> []
          (Response 403 (Some (JObj [(''error'', JObj [(''message'', JStr ''bad key'')])]))) 12)
     = Inl (Thrown \<lparr>e_message = ''bad key'', e_status = 403,
                     e_details = Some (JObj [(''error'', JObj [(''message'', JStr ''bad key'')])]),
                     e_elapsedMs = Some 12\<rparr>)"
  by (simp add: generate_def build_payload_def Let_def ok_status_def safeJsonParse_null_def
      messageFromServer_def)

lemma generate_403_no_json:
  "snd (generate show_int \<lparr>apiKey = ''k'', temperature = None, maxTokens = None\<rparr> []
          (Response 403 None) 12)
     = Inl (Thrown \<lparr>e_message = ''Gemini request failed (HTTP 403).'', e_status = 403,
                     e_details = Some JNull, e_elapsedMs = Some 12\<rparr>)"
  by (simp add: generate_def build_payload_def Let_def ok_status_def safeJsonParse_null_def
      messageFromServer_def show_int_def show_nat_403)

text \<open>
  C8. A response with a non-success status does not always end in an error that carries
  the status. When the \<^verbatim>\<open>error.message\<close> of the body is an object with a key
  \<^verbatim>\<open>toString\<close>, it is truthy, \<^verbatim>\<open>String(parsed.error.message)\<close> throws a TypeError, and
  that TypeError, which has no status and no message of the server, is what leaves
  \<^verbatim>\<open>generate\<close>.
\<close>

theorem generate_upstream_TypeError:
  "snd (generate show_int \<lparr>apiKey = ''k'', temperature = None, maxTokens = None\<rparr> []
          (Response 403 (Some (JObj [(''error'', JObj [(''message'', JObj [(''toString'', JNum 1)])])]))) 12)
     = Inl RuntimeTypeError"
  by (simp add: generate_def build_payload_def Let_def ok_status_def safeJsonParse_null_def
      messageFromServer_def)

lemma length_toGeminiContents: "toGeminiContents ns ms = Inr cs \<Longrightarrow> length cs \<le> length ms"
proof (induction ms arbitrary: cs)
  case Nil
  then show ?case by simp
next
  case (Cons m ms)
  show ?case
  proof (cases "truthy (m_text m)")
    case False
    with Cons.prems have "toGeminiContents ns ms = Inr cs" by simp
    from Cons.IH [OF this] show ?thesis by simp
  next
    case True
    with Cons.prems obtain cs' where c: "toGeminiContents ns ms = Inr cs'" and l: "length cs = Suc (length cs')"
      by (auto split: sum.splits)
    from Cons.IH [OF c] l show ?thesis by simp
  qed
qed

lemma default_limit: "getRollingMemory sess None = getRollingMemory sess (Some 15)"
  by (simp add: getRollingMemory_def)

text \<open>
  C10. The limit of \<^verbatim>\<open>getRollingMemory\<close> defaults to 15, and \<^verbatim>\<open>runAssistantTurn\<close> asks
  for 15: for an active session \<open>S\<close> whose messages are message objects, the memory
  handed to \<^verbatim>\<open>generate\<close> is what the default limit selects, namely the last
  \<open>min 15 |S.messages|\<close> messages of \<open>S\<close> stripped to role and text, and the request body
  that \<^verbatim>\<open>generate\<close> forwards has at most 15 content entries, however many messages \<open>S\<close>
  holds.
\<close>

theorem runAssistantTurn_forwards_last_15:
  assumes "getActiveSession ns e a = Inr (Some S)" and "JNull \<notin> set (s_messages S)"
  shows "\<exists>memory. runAssistantTurn ns e a st outcome elapsed
         = Some (memory, generate ns st memory outcome elapsed)
     \<and> getRollingMemory (Some (session_json S)) None = Inr memory
     \<and> memory = map (\<lambda>m. \<lparr>m_role = opt_prop (Some m) ''role'', m_text = opt_prop (Some m) ''text''\<rparr>)
                  (drop (length (s_messages S) - 15) (s_messages S))
     \<and> length memory = min 15 (length (s_messages S))
     \<and> (\<forall>p. fst (generate ns st memory outcome elapsed) = Some p \<longrightarrow>
           build_payload ns st memory = Inr p
         \<and> toGeminiContents ns memory = Inr (contents p) \<and> length (contents p) \<le> 15)"
proof -
  let ?memory = "map (\<lambda>m. \<lparr>m_role = opt_prop (Some m) ''role'', m_text = opt_prop (Some m) ''text''\<rparr>)
                  (drop (length (s_messages S) - 15) (s_messages S))"
  have k: "nat (max 0 (int (length (s_messages S)) - 15)) = length (s_messages S) - 15"
    by simp
  have g15: "getRollingMemory (Some (session_json S)) (Some 15) = Inr ?memory"
    using rolling_slice [OF assms(2), of "Some 15"] k by simp
  then have gd: "getRollingMemory (Some (session_json S)) None = Inr ?memory"
    by (simp add: default_limit)
  have run: "runAssistantTurn ns e a st outcome elapsed
      = Some (?memory, generate ns st ?memory outcome elapsed)"
    using assms(1) g15 by (simp add: runAssistantTurn_def)
  have len: "length ?memory = min 15 (length (s_messages S))"
    by auto
  have fwd: "build_payload ns st ?memory = Inr p
         \<and> toGeminiContents ns ?memory = Inr (contents p) \<and> length (contents p) \<le> 15"
    if "fst (generate ns st ?memory outcome elapsed) = Some p" for p
  proof -
    from that have p: "build_payload ns st ?memory = Inr p"
      by (auto simp: generate_def split: if_splits sum.splits)
    then have c: "toGeminiContents ns ?memory = Inr (contents p)"
      by (auto simp: build_payload_def Let_def split: sum.splits)
    from length_toGeminiContents [OF c] have "length (contents p) \<le> length ?memory" .
    with len p c show ?thesis by simp
  qed
  show ?thesis
    using run gd len fwd by blast
qed

theorem runAssistantTurn_forwards_last_15_witness:
  "\<exists>memory. runAssistantTurn show_int (sample_env 0)
       \<lparr>sessions = \<lparr>sessions_cell = Some (JArr [session_json
            \<lparr>s_id = ''s1'', s_title = ''T'', s_createdAt = ''c'', s_updatedAt = ''u'',
             s_messages = replicate 40 (JObj [(''id'', JStr ''m''), (''role'', JStr ''user''),
                                             (''text'', JStr ''hi''), (''ts'', JStr ''t'')])\<rparr>]),
          active_cell = ''s1''\<rparr>,
        activeSessionId = ''s1''\<rparr>
       \<lparr>apiKey = ''k'', temperature = None, maxTokens = None\<rparr> Rejected 0
     = Some (memory, generate show_int \<lparr>apiKey = ''k'', temperature = None, maxTokens = None\<rparr> memory Rejected 0)
     \<and> length memory = 15"
proof -
  let ?S = "\<lparr>s_id = ''s1'', s_title = ''T'', s_createdAt = ''c'', s_updatedAt = ''u'',
             s_messages = replicate 40 (JObj [(''id'', JStr ''m''), (''role'', JStr ''user''),
                                             (''text'', JStr ''hi''), (''ts'', JStr ''t'')])\<rparr>"
  let ?a = "\<lparr>sessions = \<lparr>sessions_cell = Some (JArr [session_json ?S]), active_cell = ''s1''\<rparr>,
        activeSessionId = ''s1''\<rparr>"
  have sh: "ensureShape show_int (sample_env 0) (Some (session_json ?S)) = Inr ?S"
    by (rule ensureShape_session_json) simp_all
  have "find_id [session_json ?S] (Some (JStr ''s1'')) = Inr (Some (session_json ?S))"
    by (simp add: session_json_def)
  then have h1: "getActiveSession show_int (sample_env 0) ?a = Inr (Some ?S)"
    using sh by (simp add: getActiveSession_def getById_def loadAll_def truthy_session_json
        del: find_id.simps)
  have h2: "JNull \<notin> set (s_messages ?S)" by simp
  from runAssistantTurn_forwards_last_15 [OF h1 h2, of "\<lparr>apiKey = ''k'', temperature = None, maxTokens = None\<rparr>" Rejected 0]
  show ?thesis by auto
qed

section \<open>Properties of the markdown renderer\<close>

lemma scan_line_classify:
  "scan_line st line =
     (case classify line of
        Item k t \<Rightarrow>
          (let st1 = (if listMode st \<noteq> None \<and> listMode st \<noteq> Some k then flushList st else st)
           in st1\<lparr>listMode := Some k, listBuf := listBuf st1 @ [t]\<rparr>)
      | Blank \<Rightarrow> flushList st
      | Para t \<Rightarrow> (flushList st)\<lparr>html := html (flushList st) @ ''<p>'' @ formatInline t @ ''</p>''\<rparr>)"
  by (simp add: scan_line_def classify_def pushParagraph_def Let_def split: option.splits)

lemma flushList_closed: "closed st \<Longrightarrow> flushList st = st"
  by (simp add: closed_def flushList_def)

lemma flushList_open:
  "listMode st = Some k \<Longrightarrow> listBuf st \<noteq> [] \<Longrightarrow>
   flushList st = st\<lparr>html := html st @ render_list k (listBuf st), listMode := None, listBuf := []\<rparr>"
  by (simp add: flushList_def)

lemma scan_fold:
  "(closed st \<longrightarrow>
      html (flushList (foldl scan_line st ls)) = html st @ render_blocks (spec_blocks (map classify ls)))
   \<and> (\<forall>k. listMode st = Some k \<and> listBuf st \<noteq> [] \<longrightarrow>
      html (flushList (foldl scan_line st ls))
        = html st @ render_blocks (BList k (listBuf st @ run_items k (map classify ls))
                                     # spec_blocks (after_run k (map classify ls))))"
proof (induction ls arbitrary: st)
  case Nil
  show ?case by (auto simp: flushList_closed flushList_open render_blocks_def)
next
  case (Cons l ls)
  note IHc = Cons.IH [THEN conjunct1, rule_format]
  note IHo = Cons.IH [THEN conjunct2, rule_format]
  show ?case
  proof (intro conjI impI allI)
    assume c: "closed st"
    show "html (flushList (foldl scan_line st (l # ls)))
        = html st @ render_blocks (spec_blocks (map classify (l # ls)))"
    proof (cases "classify l")
      case Blank
      then have sl: "scan_line st l = st"
        using c by (simp add: scan_line_classify flushList_closed)
      show ?thesis using IHc [OF c] sl Blank by simp
    next
      case (Para t)
      let ?st' = "st\<lparr>html := html st @ ''<p>'' @ formatInline t @ ''</p>''\<rparr>"
      have sl: "scan_line st l = ?st'"
        using c Para by (simp add: scan_line_classify flushList_closed)
      have "closed ?st'" using c by (simp add: closed_def)
      from IHc [OF this] sl Para show ?thesis by (simp add: render_blocks_def)
    next
      case (Item k' t)
      let ?st' = "st\<lparr>listMode := Some k', listBuf := [t]\<rparr>"
      have sl: "scan_line st l = ?st'"
        using Item c by (simp add: scan_line_classify closed_def)
      have "listMode ?st' = Some k' \<and> listBuf ?st' \<noteq> []" by simp
      from IHo [OF this] sl Item show ?thesis by simp
    qed
  next
    fix k assume o: "listMode st = Some k \<and> listBuf st \<noteq> []"
    let ?fl = "st\<lparr>html := html st @ render_list k (listBuf st), listMode := None, listBuf := []\<rparr>"
    have fl: "flushList st = ?fl"
      using o by (simp add: flushList_open)
    have cfl: "closed ?fl" by (simp add: closed_def)
    show "html (flushList (foldl scan_line st (l # ls)))
          = html st @ render_blocks (BList k (listBuf st @ run_items k (map classify (l # ls)))
                                     # spec_blocks (after_run k (map classify (l # ls))))"
    proof (cases "classify l")
      case Blank
      then have sl: "scan_line st l = ?fl"
        using fl by (simp add: scan_line_classify)
      from IHc [OF cfl] sl Blank show ?thesis by (simp add: render_blocks_def)
    next
      case (Para t)
      let ?st' = "?fl\<lparr>html := html ?fl @ ''<p>'' @ formatInline t @ ''</p>''\<rparr>"
      have sl: "scan_line st l = ?st'"
        using Para fl by (simp add: scan_line_classify)
      have "closed ?st'" by (simp add: closed_def)
      from IHc [OF this] sl Para show ?thesis by (simp add: render_blocks_def)
    next
      case (Item k' t)
      show ?thesis
      proof (cases "k' = k")
        case True
        let ?st' = "st\<lparr>listMode := Some k, listBuf := listBuf st @ [t]\<rparr>"
        have sl: "scan_line st l = ?st'"
          using Item o True by (simp add: scan_line_classify)
        have "listMode ?st' = Some k \<and> listBuf ?st' \<noteq> []" by simp
        from IHo [OF this] sl Item True show ?thesis by simp
      next
        case False
        let ?st' = "?fl\<lparr>listMode := Some k', listBuf := [t]\<rparr>"
        have sl: "scan_line st l = ?st'"
          using Item o False fl by (simp add: scan_line_classify)
        have "listMode ?st' = Some k' \<and> listBuf ?st' \<noteq> []" by simp
        from IHo [OF this] sl Item False show ?thesis
          by (simp add: render_blocks_def)
      qed
    qed
  qed
qed

lemma formatInlineAndBlocks_spec:
  "formatInlineAndBlocks raw = render_blocks (spec_blocks (map classify (split_lines raw)))"
  using scan_fold [of "\<lparr>html = [], listMode = None, listBuf = []\<rparr>" "split_lines raw"]
  by (simp add: formatInlineAndBlocks_def closed_def)


lemma run_then_rest: "map (Item k) (run_items k cs) @ after_run k cs = cs"
  by (induction k cs rule: after_run.induct) auto

lemma spec_blocks_runs:
  "BList k items \<in> set (spec_blocks cs) \<Longrightarrow>
   items \<noteq> [] \<and> (\<exists>pre post. cs = pre @ map (Item k) items @ post)"
proof (induction cs rule: spec_blocks.induct)
  case 1
  then show ?case by simp
next
  case (2 cs)
  then obtain pre post where "items \<noteq> []" "cs = pre @ map (Item k) items @ post" by auto
  then have "Blank # cs = (Blank # pre) @ map (Item k) items @ post" by simp
  with \<open>items \<noteq> []\<close> show ?case by blast
next
  case (3 t cs)
  then obtain pre post where "items \<noteq> []" "cs = pre @ map (Item k) items @ post" by auto
  then have "Para t # cs = (Para t # pre) @ map (Item k) items @ post" by simp
  with \<open>items \<noteq> []\<close> show ?case by blast
next
  case (4 k0 t cs)
  from "4.prems" consider (head) "k = k0" "items = t # run_items k0 cs"
    | (later) "BList k items \<in> set (spec_blocks (after_run k0 cs))" by auto
  then show ?case
  proof cases
    case head
    have "Item k0 t # cs = [] @ map (Item k0) (t # run_items k0 cs) @ after_run k0 cs"
      by (simp add: run_then_rest)
    with head show ?thesis by blast
  next
    case later
    from "4.IH" [OF later] obtain pre post where
      ne: "items \<noteq> []" and ar: "after_run k0 cs = pre @ map (Item k) items @ post" by auto
    have "Item k0 t # cs = (Item k0 t # map (Item k0) (run_items k0 cs) @ pre) @ map (Item k) items @ post"
      using run_then_rest [of k0 cs] ar by simp
    with ne show ?thesis by blast
  qed
qed

lemma spec_blocks_keeps_items:
  "Item k t \<in> set cs \<Longrightarrow> \<exists>items. BList k items \<in> set (spec_blocks cs) \<and> t \<in> set items"
proof (induction cs rule: spec_blocks.induct)
  case 1
  then show ?case by simp
next
  case (2 cs)
  then show ?case by auto
next
  case (3 t' cs)
  then show ?case by auto
next
  case (4 k0 t0 cs)
  have split: "set cs = Item k0 ` set (run_items k0 cs) \<union> set (after_run k0 cs)"
    using run_then_rest [of k0 cs] by (metis image_set set_append)
  from "4.prems" split consider (head) "k = k0" "t = t0 \<or> t \<in> set (run_items k0 cs)"
    | (later) "Item k t \<in> set (after_run k0 cs)" by auto
  then show ?case
  proof cases
    case head
    then have "BList k (t0 # run_items k0 cs) \<in> set (spec_blocks (Item k0 t0 # cs))"
      "t \<in> set (t0 # run_items k0 cs)" by auto
    then show ?thesis by blast
  next
    case later
    from "4.IH" [OF later] show ?thesis by auto
  qed
qed

text \<open>
  C5. The prose scan emits exactly the blocks of the description above. Every list it
  emits holds the texts of a stretch of consecutive list-item lines, all of the list's own
  kind, so no list mixes unordered and ordered items, and the text of every list-item line
  is in an emitted list of its kind, so a list still open at the end of the segment is
  emitted too. Step by step: a list-item line met while a list of the other kind is open
  first appends that list, finished, to the output and then starts the new buffer with its
  own text; a blank line does what \<^verbatim>\<open>flushList\<close> does and nothing else; and \<^verbatim>\<open>flushList\<close>
  on an open list appends the finished list and empties the buffer.
\<close>

theorem formatInlineAndBlocks_lists:
  "formatInlineAndBlocks raw = render_blocks (spec_blocks (map classify (split_lines raw)))
   \<and> (\<forall>k items. BList k items \<in> set (spec_blocks (map classify (split_lines raw))) \<longrightarrow>
         items \<noteq> [] \<and> (\<exists>pre post. map classify (split_lines raw) = pre @ map (Item k) items @ post))
   \<and> (\<forall>k t. Item k t \<in> set (map classify (split_lines raw)) \<longrightarrow>
         (\<exists>items. BList k items \<in> set (spec_blocks (map classify (split_lines raw))) \<and> t \<in> set items))
   \<and> (listMode st = Some k \<and> listBuf st \<noteq> [] \<and> classify line = Item k' t \<and> k' \<noteq> k \<longrightarrow>
         scan_line st line
           = \<lparr>html = html st @ render_list k (listBuf st), listMode = Some k', listBuf = [t]\<rparr>)
   \<and> (classify line = Blank \<longrightarrow> scan_line st line = flushList st)
   \<and> (listMode st = Some k \<and> listBuf st \<noteq> [] \<longrightarrow>
         flushList st = \<lparr>html = html st @ render_list k (listBuf st), listMode = None, listBuf = []\<rparr>)"
proof (intro conjI allI impI)
  show "formatInlineAndBlocks raw = render_blocks (spec_blocks (map classify (split_lines raw)))"
    by (rule formatInlineAndBlocks_spec)
next
  fix k items assume b: "BList k items \<in> set (spec_blocks (map classify (split_lines raw)))"
  from spec_blocks_runs [OF b] show "items \<noteq> []"
    and "\<exists>pre post. map classify (split_lines raw) = pre @ map (Item k) items @ post" by auto
next
  fix k t assume "Item k t \<in> set (map classify (split_lines raw))"
  then show "\<exists>items. BList k items \<in> set (spec_blocks (map classify (split_lines raw))) \<and> t \<in> set items"
    by (rule spec_blocks_keeps_items)
next
  assume a: "listMode st = Some k \<and> listBuf st \<noteq> [] \<and> classify line = Item k' t \<and> k' \<noteq> k"
  then show "scan_line st line
           = \<lparr>html = html st @ render_list k (listBuf st), listMode = Some k', listBuf = [t]\<rparr>"
    by (cases st) (auto simp add: scan_line_classify flushList_open)
next
  assume "classify line = Blank"
  then show "scan_line st line = flushList st"
    by (simp add: scan_line_classify)
next
  assume "listMode st = Some k \<and> listBuf st \<noteq> []"
  then show "flushList st = \<lparr>html = html st @ render_list k (listBuf st), listMode = None, listBuf = []\<rparr>"
    by (cases st) (simp add: flushList_open)
qed

theorem formatInlineAndBlocks_lists_witness:
  "formatInlineAndBlocks (''- a'' @ [CHR 0x0A] @ ''1. one'' @ [CHR 0x0A, CHR 0x0A] @ ''* c'')
     = ''<ul><li>a</li></ul><ol><li>one</li></ol><ul><li>c</li></ul>''
   \<and> scan_line \<lparr>html = ''<p>x</p>'', listMode = Some UL, listBuf = [''a'']\<rparr> ''1. one''
     = \<lparr>html = ''<p>x</p><ul><li>a</li></ul>'', listMode = Some OL, listBuf = [''one'']\<rparr>
   \<and> scan_line \<lparr>html = ''<p>x</p>'', listMode = Some UL, listBuf = [''a'']\<rparr> ''  ''
     = \<lparr>html = ''<p>x</p><ul><li>a</li></ul>'', listMode = None, listBuf = []\<rparr>
   \<and> (\<exists>pre post. [Item UL ''a'', Item OL ''one'', Blank, Item UL ''c''] = pre @ map (Item OL) [''one''] @ post)
   \<and> (\<exists>items. BList UL items \<in> set (spec_blocks [Item UL ''a'', Item OL ''one'', Blank, Item UL ''c''])
         \<and> ''c'' \<in> set items)"
proof -
  let ?raw = "''- a'' @ [CHR 0x0A] @ ''1. one'' @ [CHR 0x0A, CHR 0x0A] @ ''* c''"
  let ?st = "\<lparr>html = ''<p>x</p>'', listMode = Some UL, listBuf = [''a'']\<rparr>"
  have cs: "map classify (split_lines ?raw) = [Item UL ''a'', Item OL ''one'', Blank, Item UL ''c'']"
    by code_simp
  have r: "render_blocks [BList UL [''a''], BList OL [''one''], BList UL [''c'']]
      = ''<ul><li>a</li></ul><ol><li>one</li></ol><ul><li>c</li></ul>''"
    by code_simp
  have c1: "classify ''1. one'' = Item OL ''one''" by code_simp
  have c2: "classify ''  '' = Blank" by code_simp
  have rl: "render_list UL [''a''] = ''<ul><li>a</li></ul>''" by code_simp
  have h: "listMode ?st = Some UL \<and> listBuf ?st \<noteq> []" by simp
  from formatInlineAndBlocks_lists [of ?raw ?st UL "''1. one''" OL "''one''"] cs r c1 h rl
  have p1: "formatInlineAndBlocks ?raw = ''<ul><li>a</li></ul><ol><li>one</li></ol><ul><li>c</li></ul>''"
    and p2: "scan_line ?st ''1. one''
       = \<lparr>html = ''<p>x</p><ul><li>a</li></ul>'', listMode = Some OL, listBuf = [''one'']\<rparr>"
    by simp_all
  from formatInlineAndBlocks_lists [of ?raw ?st UL "''  ''" OL "''one''"] c2 h rl
  have p3: "scan_line ?st ''  '' = \<lparr>html = ''<p>x</p><ul><li>a</li></ul>'', listMode = None, listBuf = []\<rparr>"
    by simp
  have sb: "spec_blocks [Item UL ''a'', Item OL ''one'', Blank, Item UL ''c'']
      = [BList UL [''a''], BList OL [''one''], BList UL [''c'']]"
    by simp
  have runs: "\<forall>k items. BList k items \<in> set (spec_blocks (map classify (split_lines ?raw))) \<longrightarrow>
         items \<noteq> [] \<and> (\<exists>pre post. map classify (split_lines ?raw) = pre @ map (Item k) items @ post)"
    by (rule formatInlineAndBlocks_lists [THEN conjunct2, THEN conjunct1])
  have "BList OL [''one''] \<in> set (spec_blocks (map classify (split_lines ?raw)))"
    by (simp only: cs sb) simp
  with runs have "\<exists>pre post. map classify (split_lines ?raw) = pre @ map (Item OL) [''one''] @ post"
    by blast
  then have p4: "\<exists>pre post. [Item UL ''a'', Item OL ''one'', Blank, Item UL ''c''] = pre @ map (Item OL) [''one''] @ post"
    by (simp only: cs)
  have keeps: "\<forall>k t. Item k t \<in> set (map classify (split_lines ?raw)) \<longrightarrow>
         (\<exists>items. BList k items \<in> set (spec_blocks (map classify (split_lines ?raw))) \<and> t \<in> set items)"
    by (rule formatInlineAndBlocks_lists [THEN conjunct2, THEN conjunct2, THEN conjunct1])
  have "Item UL ''c'' \<in> set (map classify (split_lines ?raw))"
    by (simp only: cs) simp
  with keeps have "\<exists>items. BList UL items \<in> set (spec_blocks (map classify (split_lines ?raw))) \<and> ''c'' \<in> set items"
    by blast
  then have p5: "\<exists>items. BList UL items \<in> set (spec_blocks [Item UL ''a'', Item OL ''one'', Blank, Item UL ''c''])
         \<and> ''c'' \<in> set items"
    by (simp only: cs)
  from p1 p2 p3 p4 p5 show ?thesis by (intro conjI)
qed

section \<open>Properties of the inline pass\<close>

lemma replace_pieces_source:
  "(\<forall>s g rest. m s = Some (g, rest) \<longrightarrow> s = src g @ rest) \<Longrightarrow>
   render_pieces src (replace_pieces m s) = s"
proof (induction m s rule: replace_pieces.induct)
  case (1 m)
  show ?case by (simp add: render_pieces_def)
next
  case (2 m c cs)
  note snd = "2.prems"
  show ?case
  proof (cases "m (c # cs)")
    case None
    with "2.IH"(1) [OF None snd] show ?thesis by (simp add: render_pieces_def)
  next
    case (Some a)
    obtain g rest where a: "a = (g, rest)" by (cases a)
    show ?thesis
    proof (cases "length rest < length (c # cs)")
      case True
      have "m (c # cs) = Some (g, rest)" using Some a by simp
      with snd have "c # cs = src g @ rest" by blast
      then have src: "src g @ rest = c # cs" by (rule sym)
      from "2.IH"(2) [OF Some a [symmetric] True snd] Some a True src
      show ?thesis by (simp add: render_pieces_def)
    next
      case False
      from "2.IH"(3) [OF Some a [symmetric] False snd] Some a False
      show ?thesis by (simp add: render_pieces_def)
    qed
  qed
qed

lemma replace_pieces_match:
  "Match g \<in> set (replace_pieces m s) \<Longrightarrow> \<exists>s' rest. m s' = Some (g, rest)"
proof (induction m s rule: replace_pieces.induct)
  case (1 m)
  then show ?case by simp
next
  case (2 m c cs)
  show ?case
  proof (cases "m (c # cs)")
    case None
    with "2.prems" "2.IH"(1) show ?thesis by simp
  next
    case (Some a)
    obtain g' rest where a: "a = (g', rest)" by (cases a)
    show ?thesis
    proof (cases "length rest < length (c # cs)")
      case True
      with "2.prems" Some a have "g = g' \<or> Match g \<in> set (replace_pieces m rest)" by auto
      then show ?thesis
        using "2.IH"(2) [OF Some a [symmetric] True] Some a by blast
    next
      case False
      with "2.prems" Some a have "Match g \<in> set (replace_pieces m cs)" by auto
      then show ?thesis
        using "2.IH"(3) [OF Some a [symmetric] False] by blast
    qed
  qed
qed

lemma replace_pieces_no_match:
  "(\<forall>g. Match g \<notin> set ps) \<Longrightarrow> render_pieces f ps = render_pieces h ps"
proof (induction ps)
  case Nil
  show ?case by (simp add: render_pieces_def)
next
  case (Cons p ps)
  then show ?case by (cases p) (auto simp: render_pieces_def)
qed

lemma render_pieces_split:
  "Match g \<in> set ps \<Longrightarrow> \<exists>pre post. render_pieces f ps = pre @ f g @ post"
proof -
  assume "Match g \<in> set ps"
  then obtain xs ys where "ps = xs @ Match g # ys" by (meson split_list)
  then have "render_pieces f ps = render_pieces f xs @ f g @ render_pieces f ys"
    by (simp add: render_pieces_def)
  then show ?thesis by blast
qed



lemma lazy_dots_sound:
  "lazy_dots k s = Some (g, r) \<Longrightarrow>
   \<exists>rest. s = g @ rest \<and> k rest = Some r \<and> g \<noteq> [] \<and> \<not> list_ex is_line_terminator g"
proof (induction s arbitrary: g r)
  case Nil
  then show ?case by simp
next
  case (Cons c cs)
  from Cons.prems have nt: "\<not> is_line_terminator c" by (auto split: if_splits)
  show ?case
  proof (cases "k cs")
    case (Some r')
    with Cons.prems nt have "g = [c]" "r = r'" by auto
    with Some nt show ?thesis by auto
  next
    case None
    with Cons.prems nt obtain g' where l: "lazy_dots k cs = Some (g', r)" and g: "g = c # g'"
      by (auto split: option.splits)
    from Cons.IH [OF l] obtain rest where "cs = g' @ rest" "k rest = Some r" "g' \<noteq> []"
      "\<not> list_ex is_line_terminator g'" by blast
    with g nt show ?thesis by auto
  qed
qed

lemma after_prefix_sound: "after_prefix p s = Some t \<Longrightarrow> s = p @ t"
  by (auto simp: after_prefix_def split: if_splits) (metis append_take_drop_id)

lemma link_tail_sound:
  assumes "link_tail s = Some (url, rest)"
  shows "s = '']('' @ url @ '')'' @ rest"
    and "take 7 url = ''http://'' \<or> take 8 url = ''https://''"
proof -
  from assms obtain t where t: "after_prefix '']('' s = Some t"
    by (auto simp: link_tail_def split: option.splits)
  from assms t obtain scheme u where mu: "match_url t = Some (scheme, u)"
    by (auto simp: link_tail_def split: option.splits)
  let ?P = "\<lambda>x. \<not> is_space x \<and> x \<noteq> CHR '')''"
  from assms t mu have url: "url = scheme @ takeWhile ?P u" and r: "dropWhile ?P u \<noteq> []"
    and hd: "hd (dropWhile ?P u) = CHR '')''" and rest: "rest = tl (dropWhile ?P u)"
    by (auto simp: link_tail_def Let_def split: if_splits)
  from r hd rest have "dropWhile ?P u = CHR '')'' # rest"
    by (cases "dropWhile ?P u") auto
  then have u: "u = takeWhile ?P u @ CHR '')'' # rest"
    using takeWhile_dropWhile_id [of ?P u] by simp
  from mu have sch: "t = scheme @ u" "scheme = ''https://'' \<or> scheme = ''http://''"
    by (auto simp: match_url_def split: option.splits dest: after_prefix_sound)
  from after_prefix_sound [OF t] sch(1) u url show "s = '']('' @ url @ '')'' @ rest"
    by simp
  from sch(2) url show "take 7 url = ''http://'' \<or> take 8 url = ''https://''"
    by auto
qed

lemma match_link_sound:
  assumes "match_link s = Some (g, rest)"
  shows "s = link_source g @ rest"
    and "take 7 (snd g) = ''http://'' \<or> take 8 (snd g) = ''https://''"
    and "fst g \<noteq> []"
proof -
  from assms obtain t where s: "s = CHR ''['' # t"
    by (cases s) (auto simp: match_link_def split: if_splits)
  from assms s obtain label url where l: "lazy_dots link_tail t = Some (label, (url, rest))"
    and g: "g = (label, url)"
    by (auto simp: match_link_def split: option.splits)
  from lazy_dots_sound [OF l] obtain r where r: "t = label @ r" "link_tail r = Some (url, rest)"
    "label \<noteq> []" by blast
  from link_tail_sound [OF r(2)] r(1) s g show "s = link_source g @ rest"
    and "take 7 (snd g) = ''http://'' \<or> take 8 (snd g) = ''https://''"
    by (simp_all add: link_source_def)
  from r(3) g show "fst g \<noteq> []" by simp
qed


lemma contains_text_prefix: "contains_text p (p @ post)"
proof (cases "p @ post")
  case Nil
  then show ?thesis by simp
next
  case (Cons a list)
  have "take (length p) (p @ post) = p" by simp
  then have "take (length p) (a # list) = p" by (simp only: Cons)
  then have "contains_text p (a # list)" by simp
  then show ?thesis by (simp only: Cons)
qed

lemma contains_text_infix: "contains_text p (pre @ p @ post)"
  by (induction pre) (simp_all add: contains_text_prefix)

lemma http_prefix:
  assumes "take 7 url = ''http://'' \<or> take 8 url = ''https://''"
  shows "\<exists>r. url = ''http'' @ r"
proof -
  from assms have "url = ''http://'' @ drop 7 url \<or> url = ''https://'' @ drop 8 url"
    by (metis append_take_drop_id)
  then show ?thesis by auto
qed












text \<open>
  The link conversion runs over the code elements too: link syntax between backticks ends
  up as an anchor inside the code element.
\<close>

lemma link_inside_inline_code:
  "formatInline ''`[a](http://x)`'' = ''<code>'' @ render_link (''a'', ''http://x'') @ ''</code>''"
  by code_simp




text \<open>
  C7, as the code has it. The link conversion runs last, on the line as escaping, the bold
  conversion and the inline-code conversion left it. Every anchor it makes has a URL that
  begins with \<^verbatim>\<open>http://\<close> or \<^verbatim>\<open>https://\<close>, and where that line has no \<^verbatim>\<open>](http\<close> the
  conversion changes nothing. The anchor text is the non-empty label exactly as it stands in
  that line (rendering every match back as \<^verbatim>\<open>[label](url)\<close> gives the line again): the link
  conversion does not process it further.
\<close>

theorem links_only_http:
  "formatInline t
     = render_pieces render_link (replace_pieces match_link (code_pass (bold_pass (escapeHtml t))))
   \<and> render_pieces link_source (replace_pieces match_link (code_pass (bold_pass (escapeHtml t))))
     = code_pass (bold_pass (escapeHtml t))
   \<and> (\<forall>g. Match g \<in> set (replace_pieces match_link (code_pass (bold_pass (escapeHtml t)))) \<longrightarrow>
         fst g \<noteq> [] \<and> (take 7 (snd g) = ''http://'' \<or> take 8 (snd g) = ''https://'')
       \<and> render_link g = ''<a href='' @ [CHR 0x22] @ snd g @ [CHR 0x22]
            @ '' target='' @ [CHR 0x22] @ ''_blank'' @ [CHR 0x22]
            @ '' rel='' @ [CHR 0x22] @ ''noopener noreferrer'' @ [CHR 0x22] @ ''>'' @ fst g @ ''</a>'')
   \<and> (\<not> contains_text ''](http'' (code_pass (bold_pass (escapeHtml t))) \<longrightarrow>
         formatInline t = code_pass (bold_pass (escapeHtml t)))"
proof -
  let ?s = "code_pass (bold_pass (escapeHtml t))"
  let ?ps = "replace_pieces match_link ?s"
  have fi: "formatInline t = render_pieces render_link ?ps"
    by (simp add: formatInline_def link_pass_def)
  have src: "render_pieces link_source ?ps = ?s"
    by (rule replace_pieces_source) (auto dest: match_link_sound(1))
  have mt: "fst g \<noteq> [] \<and> (take 7 (snd g) = ''http://'' \<or> take 8 (snd g) = ''https://'')"
    if "Match g \<in> set ?ps" for g
  proof -
    from replace_pieces_match [OF that] obtain s' rest where "match_link s' = Some (g, rest)"
      by blast
    from match_link_sound(2,3) [OF this] show ?thesis by simp
  qed
  have lit: "formatInline t = ?s" if no: "\<not> contains_text ''](http'' ?s"
  proof -
    have "Match g \<notin> set ?ps" for g
    proof
      assume g: "Match g \<in> set ?ps"
      from render_pieces_split [OF g, of link_source] src obtain pre post where
        s: "?s = pre @ link_source g @ post" by auto
      from mt [OF g] http_prefix obtain r where "snd g = ''http'' @ r" by blast
      then have "link_source g = (''['' @ fst g) @ ''](http'' @ (r @ '')'')"
        by (simp add: link_source_def)
      with s have "?s = (pre @ ''['' @ fst g) @ ''](http'' @ (r @ '')'' @ post)"
        by simp
      then have "contains_text ''](http'' ?s"
        using contains_text_infix [of "''](http''" "pre @ ''['' @ fst g" "r @ '')'' @ post"]
        by simp
      with no show False by simp
    qed
    then have "render_pieces render_link ?ps = render_pieces link_source ?ps"
      by (intro replace_pieces_no_match) simp
    with fi src show ?thesis by simp
  qed
  show ?thesis
    using fi src mt lit by (simp add: render_link_def)
qed

theorem links_only_http_witness:
  "Match (''docs'', ''https://e.org/p'')
     \<in> set (replace_pieces match_link (code_pass (bold_pass (escapeHtml ''see [docs](https://e.org/p)''))))
   \<and> formatInline ''see [docs](https://e.org/p)''
     = ''see '' @ render_link (''docs'', ''https://e.org/p'')
   \<and> \<not> contains_text ''](http'' (code_pass (bold_pass (escapeHtml ''[a](ftp://x) <b>'')))
   \<and> formatInline ''[a](ftp://x) <b>'' = ''[a](ftp://x) &lt;b&gt;''
   \<and> take 8 (snd (''docs'', ''https://e.org/p'')) = ''https://''"
proof -
  have m: "Match (''docs'', ''https://e.org/p'')
     \<in> set (replace_pieces match_link (code_pass (bold_pass (escapeHtml ''see [docs](https://e.org/p)''))))"
    by code_simp
  have r: "render_pieces render_link
      (replace_pieces match_link (code_pass (bold_pass (escapeHtml ''see [docs](https://e.org/p)''))))
     = ''see '' @ render_link (''docs'', ''https://e.org/p'')"
    by code_simp
  have n: "\<not> contains_text ''](http'' (code_pass (bold_pass (escapeHtml ''[a](ftp://x) <b>'')))"
    by code_simp
  have c: "code_pass (bold_pass (escapeHtml ''[a](ftp://x) <b>'')) = ''[a](ftp://x) &lt;b&gt;''"
    by code_simp
  have "formatInline ''see [docs](https://e.org/p)''
      = render_pieces render_link
          (replace_pieces match_link (code_pass (bold_pass (escapeHtml ''see [docs](https://e.org/p)''))))"
    by (rule links_only_http [THEN conjunct1])
  then have p1: "formatInline ''see [docs](https://e.org/p)'' = ''see '' @ render_link (''docs'', ''https://e.org/p'')"
    by (simp only: r)
  have "\<not> contains_text ''](http'' (code_pass (bold_pass (escapeHtml ''[a](ftp://x) <b>''))) \<longrightarrow>
      formatInline ''[a](ftp://x) <b>'' = code_pass (bold_pass (escapeHtml ''[a](ftp://x) <b>''))"
    by (rule links_only_http [THEN conjunct2, THEN conjunct2, THEN conjunct2])
  from this n have "formatInline ''[a](ftp://x) <b>'' = code_pass (bold_pass (escapeHtml ''[a](ftp://x) <b>''))"
    by (rule mp)
  then have p2: "formatInline ''[a](ftp://x) <b>'' = ''[a](ftp://x) &lt;b&gt;''"
    by (simp only: c)
  have "\<forall>g. Match g \<in> set (replace_pieces match_link
            (code_pass (bold_pass (escapeHtml ''see [docs](https://e.org/p)'')))) \<longrightarrow>
         fst g \<noteq> [] \<and> (take 7 (snd g) = ''http://'' \<or> take 8 (snd g) = ''https://'')
       \<and> render_link g = ''<a href='' @ [CHR 0x22] @ snd g @ [CHR 0x22]
            @ '' target='' @ [CHR 0x22] @ ''_blank'' @ [CHR 0x22]
            @ '' rel='' @ [CHR 0x22] @ ''noopener noreferrer'' @ [CHR 0x22] @ ''>'' @ fst g @ ''</a>''"
    by (rule links_only_http [THEN conjunct2, THEN conjunct2, THEN conjunct1])
  with m have "take 7 (snd (''docs'', ''https://e.org/p'')) = ''http://''
      \<or> take 8 (snd (''docs'', ''https://e.org/p'')) = ''https://''"
    by blast
  then have p3: "take 8 (snd (''docs'', ''https://e.org/p'')) = ''https://''"
    by simp
  from m p1 n p2 p3 show ?thesis by (intro conjI)
qed

text \<open>
  C7 as stated fails: the label is not the escaped text only. Bold markup inside a label
  has been converted before the link conversion sees it, so the anchor text holds a
  \<^verbatim>\<open>strong\<close> element.
\<close>

theorem link_label_is_bold_processed:
  "formatInline ''[**b**](http://x)'' = render_link (''<strong>b</strong>'', ''http://x'')
   \<and> formatInline ''[**b**](http://x)'' \<noteq> render_link (''**b**'', ''http://x'')"
  by code_simp

end
